theory Spec2Isabelle
  imports
    Complex_Main
    "HOL-Library.Multiset"
    "HOL-Library.Char_ord"
    "HOL-Library.List_Lexorder"
    "HOL-Library.Product_Lexorder"
begin

section \<open>Python strings\<close>

text \<open>
  A Python \<open>str\<close> is modelled as a \<open>string\<close> (a list of 8-bit characters). The
  character classes of \<open>re\<close> and of \<open>str.strip\<close>, \<open>str.split\<close>, \<open>str.lower\<close> and
  \<open>str.upper\<close> are the ASCII ones: the whitespace characters are the codes 9 to 13,
  28 to 31 and 32, the digits are \<open>0\<close> to \<open>9\<close>, the word characters are the ASCII
  letters, the digits and the underscore.
\<close>

definition is_space :: "char \<Rightarrow> bool" where
  "is_space c = (let n = (of_char c :: int) in (9 \<le> n \<and> n \<le> 13) \<or> (28 \<le> n \<and> n \<le> 32))"

definition is_digit :: "char \<Rightarrow> bool" where
  "is_digit c = (let n = (of_char c :: int) in 48 \<le> n \<and> n \<le> 57)"

definition is_upper_char :: "char \<Rightarrow> bool" where
  "is_upper_char c = (let n = (of_char c :: int) in 65 \<le> n \<and> n \<le> 90)"

definition is_lower_char :: "char \<Rightarrow> bool" where
  "is_lower_char c = (let n = (of_char c :: int) in 97 \<le> n \<and> n \<le> 122)"

definition is_word :: "char \<Rightarrow> bool" where
  "is_word c = (is_digit c \<or> is_upper_char c \<or> is_lower_char c \<or> c = CHR ''_'')"

definition lower_char :: "char \<Rightarrow> char" where
  "lower_char c = (if is_upper_char c then char_of ((of_char c :: int) + 32) else c)"

definition upper_char :: "char \<Rightarrow> char" where
  "upper_char c = (if is_lower_char c then char_of ((of_char c :: int) - 32) else c)"

definition py_lower :: "string \<Rightarrow> string" where
  "py_lower s = map lower_char s"

definition py_upper :: "string \<Rightarrow> string" where
  "py_upper s = map upper_char s"

text \<open>\<open>s.startswith(p)\<close>.\<close>

fun startswith :: "string \<Rightarrow> string \<Rightarrow> bool" where
  "startswith s [] = True"
| "startswith [] (p # ps) = False"
| "startswith (c # cs) (p # ps) = (c = p \<and> startswith cs ps)"

text \<open>\<open>p in s\<close> for two strings: \<open>p\<close> occurs in \<open>s\<close> as a contiguous substring.\<close>

fun py_in :: "string \<Rightarrow> string \<Rightarrow> bool" where
  "py_in p [] = (p = [])"
| "py_in p (c # cs) = (startswith (c # cs) p \<or> py_in p cs)"

text \<open>\<open>any(w in s for w in ws)\<close>.\<close>

definition any_in :: "string list \<Rightarrow> string \<Rightarrow> bool" where
  "any_in ws s = list_ex (\<lambda>w. py_in w s) ws"

text \<open>\<open>s.strip()\<close>: leading and trailing whitespace removed.\<close>

definition py_strip :: "string \<Rightarrow> string" where
  "py_strip s = rev (dropWhile is_space (rev (dropWhile is_space s)))"

section \<open>The router (\<open>QuestionRouter.forward\<close>)\<close>

text \<open>
  The text-generation collaborator behind \<open>self.classify\<close> is a parameter: it maps
  the question to the \<open>route\<close> text of its reply, or to \<open>None\<close> when anything inside
  the \<open>try\<close> block raises. The prompt sent to it is a fixed template around the
  question, so the collaborator is indexed by the question. \<open>forward\<close> returns the
  route together with the list of questions it sent to the collaborator.
\<close>

definition rag_words :: "string list" where
  "rag_words = [''policy'', ''return window'', ''return days'', ''definition'']"

definition hybrid_words :: "string list" where
  "hybrid_words = [''during'', ''summer'', ''winter'', ''calendar'', ''marketing'']"

definition sql_words :: "string list" where
  "sql_words = [''top 3'', ''total revenue'', ''all-time'', ''how many'']"

definition forward :: "(string \<Rightarrow> string option) \<Rightarrow> string \<Rightarrow> string \<times> string list" where
  "forward classify question =
     (let q_lower = py_lower question in
      if any_in rag_words q_lower then (''rag'', [])
      else if any_in hybrid_words q_lower then (''hybrid'', [])
      else if any_in sql_words q_lower then (''sql'', [])
      else (case classify question of
              None \<Rightarrow> (''hybrid'', [question])
            | Some reply \<Rightarrow>
                (let route = py_lower (py_strip reply) in
                 (if route \<in> set [''rag'', ''sql'', ''hybrid''] then route else ''hybrid'',
                  [question]))))"

section \<open>Python values\<close>

text \<open>
  A Python \<open>float\<close> is a finite number, an infinity or NaN. Finite values are
  reals: the rounding of binary floating point is left out, the special values and
  the way comparisons treat NaN are kept.
\<close>

datatype pyfloat = Fin real | PInf | NInf | NaN

datatype pyval =
    PyNone
  | PyBool bool
  | PyInt int
  | PyFloat pyfloat
  | PyStr string
  | PyBytes string
  | PyList "pyval list"
  | PyDict "(string \<times> pyval) list"

datatype py_error = ValueError | IndexError | TypeError | OSError | GraphRecursionError

text \<open>\<open>a + b\<close> and \<open>a / 2\<close> on floats.\<close>

fun fl_add :: "pyfloat \<Rightarrow> pyfloat \<Rightarrow> pyfloat" where
  "fl_add (Fin a) (Fin b) = Fin (a + b)"
| "fl_add NaN b = NaN"
| "fl_add a NaN = NaN"
| "fl_add PInf NInf = NaN"
| "fl_add NInf PInf = NaN"
| "fl_add PInf b = PInf"
| "fl_add NInf b = NInf"
| "fl_add a PInf = PInf"
| "fl_add a NInf = NInf"

fun fl_half :: "pyfloat \<Rightarrow> pyfloat" where
  "fl_half (Fin a) = Fin (a / 2)"
| "fl_half a = a"

text \<open>\<open>a < b\<close> on floats: false as soon as one side is NaN.\<close>

fun fl_less :: "pyfloat \<Rightarrow> pyfloat \<Rightarrow> bool" where
  "fl_less (Fin a) (Fin b) = (a < b)"
| "fl_less NaN b = False"
| "fl_less a NaN = False"
| "fl_less NInf NInf = False"
| "fl_less NInf b = True"
| "fl_less a NInf = False"
| "fl_less PInf b = False"
| "fl_less a PInf = True"

text \<open>
  The builtins \<open>max(a, b)\<close> and \<open>min(a, b)\<close>: the first argument is kept unless the
  second is strictly greater (strictly smaller).
\<close>

definition py_max :: "pyfloat \<Rightarrow> pyfloat \<Rightarrow> pyfloat" where
  "py_max a b = (if fl_less a b then b else a)"

definition py_min :: "pyfloat \<Rightarrow> pyfloat \<Rightarrow> pyfloat" where
  "py_min a b = (if fl_less b a then b else a)"

text \<open>\<open>round(x, 2)\<close>: the nearest multiple of 0.01, a tie going to the even one.\<close>

definition round_half_even :: "real \<Rightarrow> int" where
  "round_half_even y =
     (let f = \<lfloor>y\<rfloor>; d = y - of_int f in
      if d < 1 / 2 then f else if 1 / 2 < d then f + 1 else if even f then f else f + 1)"

fun py_round2 :: "pyfloat \<Rightarrow> pyfloat" where
  "py_round2 (Fin x) = Fin (of_int (round_half_even (x * 100)) / 100)"
| "py_round2 a = a"

subsection \<open>\<open>int(s)\<close> and \<open>float(s)\<close>\<close>

definition digit_val :: "char \<Rightarrow> nat" where
  "digit_val c = nat ((of_char c :: int) - 48)"

definition digits_to_nat :: "string \<Rightarrow> nat" where
  "digits_to_nat ds = foldl (\<lambda>a c. 10 * a + digit_val c) 0 ds"

text \<open>
  \<open>int(s)\<close> for a nonempty string of digits, the only strings the code converts.
  CPython refuses a string of more than \<open>sys.int_info.default_max_str_digits\<close> = 4300
  digits with a \<open>ValueError\<close>.
\<close>

definition int_max_str_digits :: nat where
  "int_max_str_digits = 4300"

definition py_int :: "string \<Rightarrow> py_error + int" where
  "py_int ds = (if int_max_str_digits < length ds then Inl ValueError
                else Inr (int (digits_to_nat ds)))"

text \<open>
  \<open>float(s)\<close> for a string: surrounding whitespace is dropped; an underscore may
  stand only between two digits; then an optional sign and one of \<open>inf\<close>,
  \<open>infinity\<close>, \<open>nan\<close> (in any case) or a decimal numeral with at least one digit
  and an optional exponent. \<open>None\<close> is the \<open>ValueError\<close>.
\<close>

fun underscores_ok :: "char option \<Rightarrow> string \<Rightarrow> bool" where
  "underscores_ok prev [] = (if prev = Some (CHR ''_'') then False else True)"
| "underscores_ok prev (c # cs) =
     (if c = CHR ''_''
      then (case prev of None \<Rightarrow> False | Some p \<Rightarrow> is_digit p \<and> underscores_ok (Some c) cs)
      else (if prev = Some (CHR ''_'') then is_digit c else True) \<and> underscores_ok (Some c) cs)"

definition split_sign :: "string \<Rightarrow> bool \<times> string" where
  "split_sign s =
     (case s of
        [] \<Rightarrow> (False, [])
      | c # cs \<Rightarrow> if c = CHR ''-'' then (True, cs) else if c = CHR ''+'' then (False, cs)
                  else (False, c # cs))"

definition parse_exponent :: "string \<Rightarrow> int option" where
  "parse_exponent s =
     (let (neg, r) = split_sign s in
      if r = [] then None
      else if list_all is_digit r
      then Some (if neg then - int (digits_to_nat r) else int (digits_to_nat r))
      else None)"

definition pow10 :: "int \<Rightarrow> real" where
  "pow10 e = (if 0 \<le> e then 10 ^ nat e else 1 / 10 ^ nat (- e))"

definition parse_decimal :: "string \<Rightarrow> real option" where
  "parse_decimal s =
     (let ip = takeWhile is_digit s;
          r1 = dropWhile is_digit s;
          r1' = (case r1 of [] \<Rightarrow> [] | c # cs \<Rightarrow> if c = CHR ''.'' then cs else c # cs);
          fp = (case r1 of [] \<Rightarrow> [] | c # cs \<Rightarrow> if c = CHR ''.'' then takeWhile is_digit cs else []);
          r2 = dropWhile is_digit r1';
          mant = real (digits_to_nat (ip @ fp)) / 10 ^ length fp
      in if ip = [] \<and> fp = [] then None
         else (case r2 of
                 [] \<Rightarrow> Some mant
               | e # r3 \<Rightarrow>
                   if e = CHR ''e'' \<or> e = CHR ''E''
                   then (case parse_exponent r3 of None \<Rightarrow> None | Some x \<Rightarrow> Some (mant * pow10 x))
                   else None))"

definition py_float :: "string \<Rightarrow> pyfloat option" where
  "py_float s =
     (let t = py_strip s in
      if underscores_ok None t
      then (let (neg, r) = split_sign (filter (\<lambda>c. c \<noteq> CHR ''_'') t);
                l = py_lower r in
            if l = ''inf'' \<or> l = ''infinity'' then Some (if neg then NInf else PInf)
            else if l = ''nan'' then Some NaN
            else (case parse_decimal r of
                    None \<Rightarrow> None
                  | Some x \<Rightarrow> Some (Fin (if neg then - x else x))))
      else None)"

section \<open>The data of a run\<close>

text \<open>
  A chunk as the retriever stores it (\<open>id\<close>, \<open>content\<close>, \<open>source\<close>) and as it
  is retrieved (with its \<open>score\<close>), the result of
  \<open>execute_sql\<close>, the result object of the synthesizer and the constraints dictionary
  of the planner, in which an absent key is \<open>None\<close>.
\<close>

record stored_chunk =
  chunk_id :: string
  content :: string
  source :: string

record doc_chunk = stored_chunk +
  score :: real

type_synonym row = "(string \<times> pyval) list"

record sql_result =
  success :: bool
  rows :: "row list"
  columns :: "string list"
  error :: "string option"
  row_count :: nat

record synth_result =
  synth_answer :: string
  synth_explanation :: string
  synth_confidence :: string

record constraint_dict =
  date_range :: "(string \<times> string) option"
  category :: "string option"
  kpi_type :: "string option"
  kpi_formula :: "string option"
  cost_approximation :: "real option"

text \<open>
  \<open>AgentState\<close>. \<open>sql_results\<close> is \<open>None\<close> for the empty mapping \<open>{}\<close>;
  \<open>citations\<close> holds \<open>list(set(...))\<close>, a list whose order the language leaves open,
  and is kept as the set.
\<close>

record agent_state =
  question :: string
  format_hint :: string
  route :: string
  retrieved_chunks :: "doc_chunk list"
  constraints :: constraint_dict
  sql_query :: string
  sql_results :: "sql_result option"
  sql_error :: "string option"
  final_answer :: pyval
  explanation :: string
  confidence :: pyfloat
  citations :: "string set"
  repair_count :: int
  max_repairs :: int

section \<open>Regular expressions of the agent\<close>

text \<open>
  \<open>re.sub(r"^```(json|sql)?\n|```$", "", s, flags=re.MULTILINE)\<close> and
  \<open>re.sub(r'^```sql\n|```$', '', s, flags=re.MULTILINE)\<close>. \<open>tags\<close> lists, in the
  order the pattern tries them, what may stand between an opening fence at the start
  of a line and the newline that the match swallows. A closing fence is three
  backquotes before a newline or at the end of the text. The scan goes from left to
  right; \<open>bol\<close> says that the position starts a line, \<open>k\<close> counts the characters of
  the current match still to be dropped.
\<close>

definition fence :: string where
  "fence = [CHR 0x60, CHR 0x60, CHR 0x60]"

definition newline :: char where
  "newline = CHR 0x0A"

fun open_fence :: "string list \<Rightarrow> string \<Rightarrow> nat option" where
  "open_fence [] s = None"
| "open_fence (t # ts) s =
     (if startswith s (fence @ t @ [newline]) then Some (length t + 4) else open_fence ts s)"

definition fence_at :: "string list \<Rightarrow> bool \<Rightarrow> string \<Rightarrow> nat option" where
  "fence_at tags bol s =
     (if startswith s fence
      then (case (if bol then open_fence tags s else None) of
              Some n \<Rightarrow> Some n
            | None \<Rightarrow>
                (case drop 3 s of
                   [] \<Rightarrow> Some 3
                 | c # cs \<Rightarrow> if c = newline then Some 3 else None))
      else None)"

fun sub_fences :: "string list \<Rightarrow> bool \<Rightarrow> nat \<Rightarrow> string \<Rightarrow> string" where
  "sub_fences tags bol k [] = []"
| "sub_fences tags bol k (c # cs) =
     (if 0 < k then sub_fences tags (c = newline) (k - 1) cs
      else (case fence_at tags bol (c # cs) of
              Some n \<Rightarrow> sub_fences tags (c = newline) (n - 1) cs
            | None \<Rightarrow> c # sub_fences tags (c = newline) 0 cs))"

text \<open>\<open>re.search(r'\d+', s)\<close> and \<open>re.search(r'[\d.]+', s)\<close>: the matched text.\<close>

definition search_run :: "(char \<Rightarrow> bool) \<Rightarrow> string \<Rightarrow> string option" where
  "search_run cls s =
     (case dropWhile (\<lambda>c. \<not> cls c) s of
        [] \<Rightarrow> None
      | c # cs \<Rightarrow> Some (takeWhile cls (c # cs)))"

definition is_digit_or_dot :: "char \<Rightarrow> bool" where
  "is_digit_or_dot c = (is_digit c \<or> c = CHR ''.'')"

section \<open>Parsing the answer (\<open>HybridAgent._parse_answer\<close>)\<close>

text \<open>
  \<open>json.loads\<close> is a parameter: it maps a text to the value it denotes, or to \<open>None\<close>
  when it raises. \<open>except_fallback\<close> is the handler of the outer \<open>try\<close>.
\<close>

definition truthy_rows :: "sql_result option \<Rightarrow> row list" where
  "truthy_rows sql = (case sql of None \<Rightarrow> [] | Some r \<Rightarrow> rows r)"

definition except_fallback :: "string \<Rightarrow> string \<Rightarrow> sql_result option \<Rightarrow> pyval" where
  "except_fallback answer_str fmt sql =
     (case truthy_rows sql of
        [] \<Rightarrow> PyStr answer_str
      | r # rs \<Rightarrow>
          if startswith fmt ''list'' then PyList (map PyDict (r # rs))
          else if startswith fmt ''{'' then PyDict r
          else PyStr answer_str)"

text \<open>
  The loop over \<open>first_row.values()\<close>: the first value that is an \<open>int\<close> or a
  \<open>float\<close> (a \<open>bool\<close> is an \<open>int\<close>), converted by \<open>float\<close>.
\<close>

fun first_number :: "row \<Rightarrow> pyfloat option" where
  "first_number [] = None"
| "first_number ((k, v) # kvs) =
     (case v of
        PyInt i \<Rightarrow> Some (Fin (of_int i))
      | PyBool b \<Rightarrow> Some (Fin (if b then 1 else 0))
      | PyFloat x \<Rightarrow> Some x
      | _ \<Rightarrow> first_number kvs)"

text \<open>The first two statements: the text stripped, then without its code fences.\<close>

definition clean_answer :: "string \<Rightarrow> string" where
  "clean_answer answer = sub_fences [''json'', ''sql'', []] True 0 (py_strip answer)"

definition parse_answer ::
  "(string \<Rightarrow> pyval option) \<Rightarrow> string \<Rightarrow> string \<Rightarrow> sql_result option \<Rightarrow> pyval" where
  "parse_answer json_loads answer fmt sql =
     (let answer_str = clean_answer answer in
      if fmt = ''int'' then
        (case search_run is_digit answer_str of
           None \<Rightarrow> PyInt 0
         | Some m \<Rightarrow>
             (case py_int m of
                Inl e \<Rightarrow> except_fallback answer_str fmt sql
              | Inr i \<Rightarrow> PyInt i))
      else if fmt = ''float'' then
        (case search_run is_digit_or_dot answer_str of
           Some m \<Rightarrow>
             (case py_float m of
                None \<Rightarrow> except_fallback answer_str fmt sql
              | Some x \<Rightarrow> PyFloat (py_round2 x))
         | None \<Rightarrow>
             (case truthy_rows sql of
                [] \<Rightarrow> PyFloat (Fin 0)
              | first_row # rs \<Rightarrow>
                  (case first_number first_row of
                     Some x \<Rightarrow> PyFloat (py_round2 x)
                   | None \<Rightarrow> PyFloat (Fin 0))))
      else if startswith fmt ''{'' then
        (case json_loads answer_str of
           Some v \<Rightarrow> v
         | None \<Rightarrow> (case truthy_rows sql of [] \<Rightarrow> PyDict [] | r # rs \<Rightarrow> PyDict r))
      else if startswith fmt ''list'' then
        (case json_loads answer_str of
           Some v \<Rightarrow> v
         | None \<Rightarrow> PyList (map PyDict (truthy_rows sql)))
      else PyStr answer_str)"

section \<open>The confidence score (\<open>HybridAgent._calculate_confidence\<close>)\<close>

definition heuristic_sum :: "agent_state \<Rightarrow> real" where
  "heuristic_sum state =
     (let c0 = 0.5;
          c1 = (case sql_results state of
                  None \<Rightarrow> c0
                | Some r \<Rightarrow>
                    if success r then (if rows r = [] then c0 + 0.2 else c0 + 0.2 + 0.1) else c0);
          chunks = retrieved_chunks state;
          c2 = (if chunks = [] then c1
                else c1 + (sum_list (map score chunks) / real (max 1 (length chunks))) * 0.2)
      in c2 + (if repair_count state = 0 then 0.1 else - 0.05 * of_int (repair_count state)))"

definition calculate_confidence :: "agent_state \<Rightarrow> synth_result \<Rightarrow> pyfloat" where
  "calculate_confidence state synth =
     (let h = Fin (heuristic_sum state);
          c = (case py_float (synth_confidence synth) of
                 None \<Rightarrow> h
               | Some m \<Rightarrow> fl_half (fl_add h m))
      in py_min (py_max c (Fin 0)) (Fin 1))"

section \<open>Constraint extraction (\<open>HybridAgent._extract_constraints\<close>)\<close>

text \<open>
  \<open>re.findall(r'(\d{4}-\d{2}-\d{2})\s+to\s+(\d{4}-\d{2}-\d{2})', content)\<close>.
  \<open>match_iso_date\<close> reads one date at the head of a text and returns the rest;
  \<open>match_date_range\<close> matches the whole pattern at the head of a text and returns the
  two groups and the length of the match; \<open>date_findall\<close> collects the matches from
  left to right, each search starting where the previous match ended.
\<close>

definition match_iso_date :: "string \<Rightarrow> (string \<times> string) option" where
  "match_iso_date s =
     (let d = take 10 s in
      if length d = 10
         \<and> list_all is_digit (take 4 d) \<and> d ! 4 = CHR ''-''
         \<and> list_all is_digit (take 2 (drop 5 d)) \<and> d ! 7 = CHR ''-''
         \<and> list_all is_digit (drop 8 d)
      then Some (d, drop 10 s) else None)"

definition match_date_range :: "string \<Rightarrow> (string \<times> string \<times> nat) option" where
  "match_date_range s =
     (case match_iso_date s of
        None \<Rightarrow> None
      | Some (d1, r1) \<Rightarrow>
          (let w1 = takeWhile is_space r1; r2 = dropWhile is_space r1 in
           if w1 = [] then None
           else if startswith r2 ''to''
           then (let r3 = drop 2 r2; w2 = takeWhile is_space r3; r4 = dropWhile is_space r3 in
                 if w2 = [] then None
                 else (case match_iso_date r4 of
                         None \<Rightarrow> None
                       | Some (d2, r5) \<Rightarrow> Some (d1, d2, 22 + length w1 + length w2)))
           else None))"

fun date_findall_from :: "nat \<Rightarrow> string \<Rightarrow> (string \<times> string) list" where
  "date_findall_from k [] = []"
| "date_findall_from k (c # cs) =
     (if 0 < k then date_findall_from (k - 1) cs
      else (case match_date_range (c # cs) of
              None \<Rightarrow> date_findall_from 0 cs
            | Some (d1, d2, n) \<Rightarrow> (d1, d2) # date_findall_from (n - 1) cs))"

definition date_findall :: "string \<Rightarrow> (string \<times> string) list" where
  "date_findall s = date_findall_from 0 s"

definition categories :: "string list" where
  "categories = [''Beverages'', ''Condiments'', ''Confections'', ''Dairy Products'',
                 ''Grains/Cereals'', ''Meat/Poultry'', ''Produce'', ''Seafood'']"

definition category_phrases :: "string list" where
  "category_phrases = [''which category'', ''which product category'', ''what category'',
                       ''top category'', ''highest category'', ''best category'']"

definition asking_about_category :: "string \<Rightarrow> bool" where
  "asking_about_category q = any_in category_phrases (py_lower q)"

definition empty_constraints :: constraint_dict where
  "empty_constraints =
     \<lparr>date_range = None, category = None, kpi_type = None, kpi_formula = None,
      cost_approximation = None\<rparr>"

text \<open>The body of the loop over the chunks, in the order of its four blocks.\<close>

definition constrain_dates :: "string \<Rightarrow> constraint_dict \<Rightarrow> constraint_dict" where
  "constrain_dates text cs =
     (case date_findall text of
        [] \<Rightarrow> cs
      | m # ms \<Rightarrow> cs\<lparr>date_range := Some m\<rparr>)"

definition constrain_category :: "string \<Rightarrow> string \<Rightarrow> constraint_dict \<Rightarrow> constraint_dict" where
  "constrain_category q text cs =
     (if asking_about_category q then cs
      else (case find (\<lambda>cat. py_in cat text) categories of
              None \<Rightarrow> cs
            | Some cat \<Rightarrow> cs\<lparr>category := Some cat\<rparr>))"

definition constrain_aov :: "string \<Rightarrow> string \<Rightarrow> constraint_dict \<Rightarrow> constraint_dict" where
  "constrain_aov q text cs =
     (if (py_in ''AOV'' q \<or> py_in ''Average Order Value'' q) \<and> py_in ''AOV'' text
      then cs\<lparr>kpi_type := Some ''AOV'',
               kpi_formula :=
                 Some ''SUM(UnitPrice * Quantity * (1 - Discount)) / COUNT(DISTINCT OrderID)''\<rparr>
      else cs)"

definition constrain_margin :: "string \<Rightarrow> string \<Rightarrow> constraint_dict \<Rightarrow> constraint_dict" where
  "constrain_margin q text cs =
     (if (py_in ''gross margin'' (py_lower q) \<or> py_in ''margin'' (py_lower q))
         \<and> (py_in ''Gross Margin'' text \<or> py_in ''margin'' (py_lower text))
      then cs\<lparr>kpi_type := Some ''gross_margin'', cost_approximation := Some 0.7\<rparr>
      else cs)"

definition constrain_chunk :: "string \<Rightarrow> constraint_dict \<Rightarrow> doc_chunk \<Rightarrow> constraint_dict" where
  "constrain_chunk q cs chunk =
     constrain_margin q (content chunk)
       (constrain_aov q (content chunk)
          (constrain_category q (content chunk)
             (constrain_dates (content chunk) cs)))"

definition extract_constraints :: "string \<Rightarrow> doc_chunk list \<Rightarrow> constraint_dict" where
  "extract_constraints q chunks = foldl (constrain_chunk q) empty_constraints chunks"

section \<open>The SQL tool (\<open>sqlite_tool\<close>)\<close>

subsection \<open>Hints for the error text (\<open>_get_error_hints\<close>)\<close>

text \<open>
  The arrow that starts every hint is outside ASCII; it is written as the three bytes
  of its UTF-8 encoding. \<open>search_after key s\<close> is
  \<open>re.search(key + r"\s*(\S+)", s, re.IGNORECASE)\<close> for a lowercase \<open>key\<close>: the
  group of the leftmost match.
\<close>

definition arrow :: string where
  "arrow = [CHR 0xE2, CHR 0x86, CHR 0x92]"

definition quote :: string where
  "quote = [CHR 0x22]"

definition apos :: string where
  "apos = [CHR 0x27]"

fun search_after :: "string \<Rightarrow> string \<Rightarrow> string option" where
  "search_after key [] = None"
| "search_after key (c # cs) =
     (if startswith (py_lower (c # cs)) key
      then (case takeWhile (\<lambda>x. \<not> is_space x)
                   (dropWhile is_space (drop (length key) (c # cs))) of
              [] \<Rightarrow> search_after key cs
            | g # gs \<Rightarrow> Some (g # gs))
      else search_after key cs)"

definition table_hints :: "string \<Rightarrow> string list" where
  "table_hints error_msg =
     (case search_after ''no such table:'' error_msg of
        None \<Rightarrow> []
      | Some wrong_table \<Rightarrow>
          [[newline] @ ''  '' @ arrow @ '' Table '' @ apos @ wrong_table @ apos @ '' does not exist'']
          @ (if py_lower wrong_table \<in> set [''orderdetails'', ''order_details'']
             then [''  '' @ arrow @ '' Use '' @ quote @ ''Order Details'' @ quote
                   @ '' (with quotes and space)'']
             else if py_lower wrong_table = ''categories''
             then [''  '' @ arrow @ '' Use '' @ apos @ ''Categories'' @ apos @ '' (capital C)'']
             else if py_lower wrong_table \<in> set [''salestable'', ''sales'']
             then [''  '' @ arrow @ '' No sales table exists. Use Orders + '' @ quote
                   @ ''Order Details'' @ quote]
             else []))"

definition column_hints :: "string \<Rightarrow> string \<Rightarrow> string list" where
  "column_hints error_msg query =
     (case search_after ''no such column:'' error_msg of
        None \<Rightarrow> []
      | Some wrong_col \<Rightarrow>
          [[newline] @ ''  '' @ arrow @ '' Column '' @ apos @ wrong_col @ apos @ '' does not exist'']
          @ (if py_in ''categoryname'' (py_lower wrong_col)
             then [''  '' @ arrow @ '' CategoryName is in '' @ apos @ ''Categories'' @ apos
                   @ '' table, not '' @ apos @ ''Products'' @ apos,
                   ''  '' @ arrow @ '' Join: Products.CategoryID = Categories.CategoryID'']
             else if py_in ''returnwindow'' (py_lower wrong_col)
             then [''  '' @ arrow @ '' No return policy data in database'',
                   ''  '' @ arrow @ '' This info is in DOCUMENTS (use RAG, not SQL)'']
             else if py_in ''productname'' (py_lower wrong_col) \<and> py_in ''order'' (py_lower query)
             then [''  '' @ arrow @ '' ProductName is in '' @ apos @ ''Products'' @ apos @ '' table'',
                   ''  '' @ arrow @ '' Join: '' @ quote @ ''Order Details'' @ quote
                   @ ''.ProductID = Products.ProductID'']
             else []))"

definition get_error_hints :: "string \<Rightarrow> string \<Rightarrow> string" where
  "get_error_hints error_msg query =
     concat
       (if py_in ''no such table'' (py_lower error_msg) then table_hints error_msg
        else if py_in ''no such column'' (py_lower error_msg) then column_hints error_msg query
        else if py_in ''syntax error'' (py_lower error_msg)
        then (if py_in ''BETWEDIR'' query \<or> py_in ''BETWELOG'' query
              then [[newline] @ ''  '' @ arrow @ '' Typo in BETWEEN clause'',
                    ''  '' @ arrow @ '' Correct: WHERE DATE(col) BETWEEN '' @ apos @ ''date1'' @ apos
                    @ '' AND '' @ apos @ ''date2'' @ apos]
              else [])
        else if py_in ''ambiguous'' (py_lower error_msg)
        then [[newline] @ ''  '' @ arrow @ '' Column name exists in multiple tables'',
              ''  '' @ arrow @ '' Use table prefix: table_name.column_name'']
        else [])"

subsection \<open>Running a query (\<open>execute_sql\<close>)\<close>

text \<open>
  The relational engine is a parameter. For the cleaned query text it answers with the
  fetched rows, with an \<open>sqlite3.Error\<close> carrying a message, or with any other
  exception carrying a message. A fetched \<open>sqlite3.Row\<close> is given by what
  \<open>row.keys()\<close> and \<open>dict(row)\<close> return for it. The argument of \<open>execute_sql\<close> is any
  Python value.
\<close>

record sqlite_row =
  row_keys :: "string list"
  row_dict :: row

datatype engine_outcome =
    Fetched "sqlite_row list"
  | SqliteError string
  | OtherException string

definition failure :: "string \<Rightarrow> sql_result" where
  "failure msg = \<lparr>success = False, rows = [], columns = [], error = Some msg, row_count = 0\<rparr>"

definition execute_sql :: "(string \<Rightarrow> engine_outcome) \<Rightarrow> pyval \<Rightarrow> sql_result" where
  "execute_sql engine query =
     (case query of
        PyStr q \<Rightarrow>
          if q = [] then failure ''Invalid query: empty or not a string''
          else if py_strip q = [] then failure ''Query is empty after cleaning''
          else (case engine (py_strip q) of
                  Fetched fetched \<Rightarrow>
                    \<lparr>success = True,
                     rows = map row_dict fetched,
                     columns = (case fetched of [] \<Rightarrow> [] | r # rs \<Rightarrow> row_keys r),
                     error = None,
                     row_count = length (map row_dict fetched)\<rparr>
                | SqliteError error_msg \<Rightarrow>
                    failure (error_msg @ get_error_hints error_msg (py_strip q))
                | OtherException msg \<Rightarrow> failure (''Unexpected error: '' @ msg))
      | _ \<Rightarrow> failure ''Invalid query: empty or not a string'')"

subsection \<open>Tables of a query (\<open>extract_tables_from_sql\<close>)\<close>

text \<open>
  The pattern is \<open>\b(?:FROM|JOIN|INTO|UPDATE|TABLE)\s+\<close> followed by a name in double
  quotes, single quotes or backquotes, or by a run of word characters, matched without
  regard to case. \<open>match_table_ref\<close> matches it at the head of a text (the word
  boundary is checked by the scan) and returns the group and the length of the match;
  \<open>tables_scan\<close> is \<open>finditer\<close>, with the character before the position at hand.
\<close>

definition table_keywords :: "string list" where
  "table_keywords = [''FROM'', ''JOIN'', ''INTO'', ''UPDATE'', ''TABLE'']"

definition match_keyword :: "string \<Rightarrow> nat option" where
  "match_keyword s =
     map_option length (find (\<lambda>k. py_upper (take (length k) s) = k) table_keywords)"

definition match_quoted :: "char \<Rightarrow> string \<Rightarrow> (string \<times> nat) option" where
  "match_quoted qc s =
     (case s of
        [] \<Rightarrow> None
      | c # cs \<Rightarrow>
          if c = qc
          then (let body = takeWhile (\<lambda>x. x \<noteq> qc) cs in
                if body = [] then None
                else if dropWhile (\<lambda>x. x \<noteq> qc) cs = [] then None
                else Some (body, length body + 2))
          else None)"

definition match_name :: "string \<Rightarrow> (string \<times> nat) option" where
  "match_name s =
     (case match_quoted (CHR 0x22) s of
        Some m \<Rightarrow> Some m
      | None \<Rightarrow>
          (case match_quoted (CHR 0x27) s of
             Some m \<Rightarrow> Some m
           | None \<Rightarrow>
               (case match_quoted (CHR 0x60) s of
                  Some m \<Rightarrow> Some m
                | None \<Rightarrow>
                    (case takeWhile is_word s of
                       [] \<Rightarrow> None
                     | w # ws \<Rightarrow> Some (w # ws, length (w # ws))))))"

definition match_table_ref :: "string \<Rightarrow> (string \<times> nat) option" where
  "match_table_ref s =
     (case match_keyword s of
        None \<Rightarrow> None
      | Some n \<Rightarrow>
          (let ws = takeWhile is_space (drop n s) in
           if ws = [] then None
           else (case match_name (dropWhile is_space (drop n s)) of
                   None \<Rightarrow> None
                 | Some (g, m) \<Rightarrow> Some (g, n + length ws + m))))"

definition at_boundary :: "char option \<Rightarrow> bool" where
  "at_boundary prev = (case prev of None \<Rightarrow> True | Some p \<Rightarrow> \<not> is_word p)"

fun tables_scan :: "char option \<Rightarrow> nat \<Rightarrow> string \<Rightarrow> string list" where
  "tables_scan prev k [] = []"
| "tables_scan prev k (c # cs) =
     (if 0 < k then tables_scan (Some c) (k - 1) cs
      else (case (if at_boundary prev then match_table_ref (c # cs) else None) of
              None \<Rightarrow> tables_scan (Some c) 0 cs
            | Some (g, n) \<Rightarrow> g # tables_scan (Some c) (n - 1) cs))"

definition sql_keywords :: "string list" where
  "sql_keywords =
     [''SELECT'', ''WHERE'', ''GROUP'', ''ORDER'', ''HAVING'', ''LIMIT'',
      ''OFFSET'', ''UNION'', ''INTERSECT'', ''EXCEPT'', ''CASE'', ''WHEN'',
      ''THEN'', ''ELSE'', ''END'', ''AS'', ''ON'', ''USING'', ''AND'', ''OR'',
      ''NOT'', ''IN'', ''EXISTS'', ''BETWEEN'', ''LIKE'', ''IS'', ''NULL'',
      ''DISTINCT'', ''ALL'', ''ASC'', ''DESC'']"

definition is_sql_keyword :: "string \<Rightarrow> bool" where
  "is_sql_keyword word = (py_upper word \<in> set sql_keywords)"

text \<open>
  \<open>table.split()[0].strip().strip(',;')\<close>: the first whitespace-separated token, an
  \<open>IndexError\<close> when there is none, without leading and trailing commas and
  semicolons.
\<close>

definition is_comma_semicolon :: "char \<Rightarrow> bool" where
  "is_comma_semicolon c = (c = CHR '','' \<or> c = CHR '';'')"

definition clean_table :: "string \<Rightarrow> py_error + string" where
  "clean_table g =
     (case takeWhile (\<lambda>x. \<not> is_space x) (dropWhile is_space g) of
        [] \<Rightarrow> Inl IndexError
      | t # ts \<Rightarrow>
          Inr (rev (dropWhile is_comma_semicolon
                 (rev (dropWhile is_comma_semicolon (py_strip (t # ts)))))))"

text \<open>
  The loop over the matches, from a given set of tables: the first match without a
  token ends it with the error; a name that is empty or a keyword is left out.
\<close>

fun add_tables :: "string set \<Rightarrow> string list \<Rightarrow> py_error + string set" where
  "add_tables tables [] = Inr tables"
| "add_tables tables (g # gs) =
     (case clean_table g of
        Inl e \<Rightarrow> Inl e
      | Inr t \<Rightarrow>
          if t = [] then add_tables tables gs
          else if is_sql_keyword t then add_tables tables gs
          else add_tables (insert t tables) gs)"

text \<open>
  The names that the loop over the matches adds when no match fails: the cleaned
  names that are neither empty nor keywords.
\<close>

definition names_of :: "string list \<Rightarrow> string set" where
  "names_of ms = {t. \<exists>g\<in>set ms. clean_table g = Inr t \<and> t \<noteq> [] \<and> \<not> is_sql_keyword t}"

definition extract_tables_from_sql :: "string \<Rightarrow> py_error + string list" where
  "extract_tables_from_sql sql =
     (if sql = [] then Inr []
      else (case add_tables {} (tables_scan None 0 sql) of
              Inl e \<Rightarrow> Inl e
            | Inr tables \<Rightarrow> Inr (sorted_list_of_set tables)))"

section \<open>Retrieval (\<open>DocumentRetriever\<close>)\<close>

subsection \<open>Building the retriever (\<open>__init__\<close>, \<open>_load_and_chunk\<close>, \<open>_build_index\<close>)\<close>

text \<open>
  The file system is a parameter: \<open>listdir\<close> gives the names in a directory and
  \<open>read_text\<close> the text of a file, and each may raise instead. \<open>path_join\<close> is
  \<open>os.path.join\<close> on two components, \<open>py_split\<close> is \<open>s.split(sep)\<close> for a separator
  that is not empty, \<open>str_nat\<close> writes a number in decimal.
\<close>

record filesystem =
  listdir :: "string \<Rightarrow> py_error + string list"
  read_text :: "string \<Rightarrow> py_error + string"

definition endswith :: "string \<Rightarrow> string \<Rightarrow> bool" where
  "endswith s suffix = startswith (rev s) (rev suffix)"

definition path_join :: "string \<Rightarrow> string \<Rightarrow> string" where
  "path_join a b =
     (if startswith b ''/'' then b
      else if a = [] then b
      else if endswith a ''/'' then a @ b
      else a @ ''/'' @ b)"

fun split_from :: "string \<Rightarrow> string \<Rightarrow> nat \<Rightarrow> string \<Rightarrow> string list" where
  "split_from sep cur k [] = [cur]"
| "split_from sep cur k (c # cs) =
     (if 0 < k then split_from sep cur (k - 1) cs
      else if startswith (c # cs) sep then cur # split_from sep [] (length sep - 1) cs
      else split_from sep (cur @ [c]) 0 cs)"

definition py_split :: "string \<Rightarrow> string \<Rightarrow> string list" where
  "py_split sep s = split_from sep [] 0 s"

function str_nat :: "nat \<Rightarrow> string" where
  "str_nat n =
     (if n < 10 then [char_of (48 + int n)]
      else str_nat (n div 10) @ [char_of (48 + int (n mod 10))])"
  by pat_completeness auto
termination
  by (relation "measure id") auto

declare str_nat.simps [simp del]

text \<open>
  The chunks of one file: the text is split at the second-level headers, and every
  section that is not blank becomes a chunk whose id carries the position of the
  section.
\<close>

definition header_separator :: string where
  "header_separator = [newline] @ ''## ''"

definition chunks_of_file :: "string \<Rightarrow> string \<Rightarrow> stored_chunk list" where
  "chunks_of_file filename text =
     map (\<lambda>(i, section).
            \<lparr>chunk_id = filename @ ''::chunk'' @ str_nat i, content = py_strip section,
             source = filename\<rparr>)
       (filter (\<lambda>(i, section). py_strip section \<noteq> [])
          (enumerate 0 (py_split header_separator text)))"

fun load_files ::
  "filesystem \<Rightarrow> string \<Rightarrow> string list \<Rightarrow> stored_chunk list \<Rightarrow> py_error + stored_chunk list" where
  "load_files fs docs_dir [] found = Inr found"
| "load_files fs docs_dir (filename # names) found =
     (if endswith filename ''.md''
      then (case read_text fs (path_join docs_dir filename) of
              Inl e \<Rightarrow> Inl e
            | Inr text \<Rightarrow> load_files fs docs_dir names (found @ chunks_of_file filename text))
      else load_files fs docs_dir names found)"


text \<open>
  The vector library is a parameter. \<open>can_fit\<close> says whether \<open>fit_transform\<close> goes
  through on the texts (it raises a \<open>ValueError\<close> otherwise); \<open>similarity texts q i\<close>
  is the cosine similarity of the query with row \<open>i\<close> of the matrix fitted on the
  texts; \<open>tie_break\<close> is the order in which \<open>argsort\<close> leaves equal scores, which the
  library does not fix. A retriever holds its chunks; its matrix is given by their
  contents.
\<close>

record vector_library =
  can_fit :: "string list \<Rightarrow> bool"
  similarity :: "string list \<Rightarrow> string \<Rightarrow> nat \<Rightarrow> real"
  tie_break :: "real list \<Rightarrow> nat \<Rightarrow> nat"

record document_retriever =
  retriever_chunks :: "stored_chunk list"


subsection \<open>Searching (\<open>search\<close>)\<close>

text \<open>
  \<open>argsort\<close> orders the positions by their scores, from the lowest; \<open>slice_from j\<close>
  is the slice \<open>[j:]\<close>, so that \<open>[-top_k:]\<close> keeps the last \<open>top_k\<close> positions for a
  positive \<open>top_k\<close> and all of them for 0; \<open>get_item\<close> is indexing by a position,
  with its \<open>IndexError\<close>.
\<close>

definition argsort :: "(real list \<Rightarrow> nat \<Rightarrow> nat) \<Rightarrow> real list \<Rightarrow> nat list" where
  "argsort tie xs = sort_key (\<lambda>i. (xs ! i, tie xs i)) [0..<length xs]"

definition slice_from :: "int \<Rightarrow> 'a list \<Rightarrow> 'a list" where
  "slice_from j xs =
     (if 0 \<le> j then drop (nat j) xs else drop (length xs - nat (- j)) xs)"

definition get_item :: "'a list \<Rightarrow> nat \<Rightarrow> py_error + 'a" where
  "get_item xs i = (if i < length xs then Inr (xs ! i) else Inl IndexError)"

fun scored_chunks ::
  "stored_chunk list \<Rightarrow> real list \<Rightarrow> nat list \<Rightarrow> py_error + doc_chunk list" where
  "scored_chunks stored scores [] = Inr []"
| "scored_chunks stored scores (idx # rest) =
     (case get_item stored idx of
        Inl e \<Rightarrow> Inl e
      | Inr ch \<Rightarrow>
          (case get_item scores idx of
             Inl e \<Rightarrow> Inl e
           | Inr x \<Rightarrow>
               (case scored_chunks stored scores rest of
                  Inl e \<Rightarrow> Inl e
                | Inr found \<Rightarrow>
                    Inr (\<lparr>chunk_id = chunk_id ch, content = content ch, source = source ch,
                          score = x\<rparr> # found))))"

definition search ::
  "vector_library \<Rightarrow> document_retriever \<Rightarrow> string \<Rightarrow> int \<Rightarrow> py_error + doc_chunk list" where
  "search lib r query top_k =
     (let texts = map content (retriever_chunks r);
          scores = map (similarity lib texts query) [0..<length texts];
          top_indices = rev (slice_from (- top_k) (argsort (tie_break lib) scores))
      in scored_chunks (retriever_chunks r) scores top_indices)"

section \<open>Citations (\<open>HybridAgent._collect_citations\<close>)\<close>

definition collect_citations :: "agent_state \<Rightarrow> py_error + string set" where
  "collect_citations state =
     (let ids = map chunk_id (retrieved_chunks state) in
      if sql_query state = [] then Inr (set ids)
      else (case extract_tables_from_sql (sql_query state) of
              Inl e \<Rightarrow> Inl e
            | Inr tables \<Rightarrow> Inr (set (tables @ ids))))"

section \<open>The graph (\<open>HybridAgent\<close>)\<close>

text \<open>
  The members of an agent. \<open>retriever\<close> is the document retriever and \<open>vectors\<close> the
  vector library it works with. \<open>llm_nl2sql\<close> is the \<open>sql\<close> attribute of what
  \<open>NL2SQLModule\<close> returns for the question, the constraints and the error feedback;
  \<open>llm_synthesize\<close> is what \<open>SynthesizerModule\<close> returns once its prompt is built.
  The language model and the engine may answer differently from one attempt to the
  next, so both are indexed by the repair count of the state they are called in.
\<close>

record collaborators =
  llm_classify :: "string \<Rightarrow> string option"
  vectors :: vector_library
  retriever :: document_retriever
  llm_nl2sql :: "int \<Rightarrow> string \<Rightarrow> constraint_dict \<Rightarrow> string option \<Rightarrow> string"
  sql_engine :: "int \<Rightarrow> string \<Rightarrow> engine_outcome"
  llm_synthesize :: "string \<Rightarrow> doc_chunk list \<Rightarrow> sql_result option \<Rightarrow> string \<Rightarrow> synth_result"
  json_loads :: "string \<Rightarrow> pyval option"


datatype node = Router | Retriever | Planner | NL2SQL | Executor | Repair | Synthesizer | END

text \<open>The calls a node makes to the collaborators.\<close>

datatype call =
    Classify string
  | Search string int
  | Generate "string option"
  | Execute string
  | Synthesize

definition router_node :: "collaborators \<Rightarrow> agent_state \<Rightarrow> agent_state \<times> call list" where
  "router_node c state =
     (case forward (llm_classify c) (question state) of
        (r, asked) \<Rightarrow> (state\<lparr>route := r\<rparr>, map Classify asked))"

definition retriever_node ::
  "collaborators \<Rightarrow> agent_state \<Rightarrow> (py_error + agent_state) \<times> call list" where
  "retriever_node c state =
     (if route state \<in> set [''rag'', ''hybrid'']
      then (case search (vectors c) (retriever c) (question state) 3 of
              Inl e \<Rightarrow> (Inl e, [Search (question state) 3])
            | Inr chunks \<Rightarrow>
                (Inr (state\<lparr>retrieved_chunks := chunks\<rparr>), [Search (question state) 3]))
      else (Inr state, []))"

definition planner_node :: "agent_state \<Rightarrow> agent_state" where
  "planner_node state =
     (if route state \<in> set [''sql'', ''hybrid'']
      then state\<lparr>constraints := extract_constraints (question state) (retrieved_chunks state)\<rparr>
      else state)"

definition nl2sql_node :: "collaborators \<Rightarrow> agent_state \<Rightarrow> agent_state \<times> call list" where
  "nl2sql_node c state =
     (if route state \<in> set [''sql'', ''hybrid'']
      then (let error_feedback = (if 0 < repair_count state then sql_error state else None);
                result_sql = llm_nl2sql c (repair_count state) (question state)
                               (constraints state) error_feedback;
                sql = sub_fences [''sql''] True 0 (py_strip result_sql)
            in (state\<lparr>sql_query := sql\<rparr>, [Generate error_feedback]))
      else (state, []))"

definition executor_node :: "collaborators \<Rightarrow> agent_state \<Rightarrow> agent_state \<times> call list" where
  "executor_node c state =
     (if sql_query state = [] then (state, [])
      else (let result = execute_sql (sql_engine c (repair_count state)) (PyStr (sql_query state))
            in (state\<lparr>sql_results := Some result, sql_error := error result\<rparr>,
                [Execute (sql_query state)])))"

definition repair_node :: "agent_state \<Rightarrow> agent_state" where
  "repair_node state = state\<lparr>repair_count := repair_count state + 1\<rparr>"

text \<open>
  \<open>SynthesizerModule.forward\<close> renders the rows of a successful result with
  \<open>json.dumps\<close> before its \<open>try\<close> block: a value of type \<open>bytes\<close> in a row raises a
  \<open>TypeError\<close>, which leaves the synthesizer node.
\<close>

definition is_bytes :: "string \<times> pyval \<Rightarrow> bool" where
  "is_bytes kv = (case snd kv of PyBytes b \<Rightarrow> True | _ \<Rightarrow> False)"

definition unserializable :: "sql_result option \<Rightarrow> bool" where
  "unserializable sql =
     (case sql of
        None \<Rightarrow> False
      | Some r \<Rightarrow> success r \<and> list_ex (list_ex is_bytes) (rows r))"

definition synthesizer_node ::
  "collaborators \<Rightarrow> agent_state \<Rightarrow> (py_error + agent_state) \<times> call list" where
  "synthesizer_node c state =
     (if unserializable (sql_results state) then (Inl TypeError, [])
      else (let result = llm_synthesize c (question state) (retrieved_chunks state)
                           (sql_results state) (format_hint state);
                answer = parse_answer (json_loads c) (synth_answer result) (format_hint state)
                           (sql_results state)
            in (case collect_citations state of
                  Inl e \<Rightarrow> (Inl e, [Synthesize])
                | Inr cited \<Rightarrow>
                    (Inr (state\<lparr>final_answer := answer,
                                explanation := synth_explanation result,
                                confidence := calculate_confidence state result,
                                citations := cited\<rparr>),
                     [Synthesize]))))"

text \<open>The conditional edges. A non-empty string is the only \<open>sql_error\<close> that is true.\<close>

definition truthy :: "string option \<Rightarrow> bool" where
  "truthy e = (case e of None \<Rightarrow> False | Some s \<Rightarrow> (case s of [] \<Rightarrow> False | x # xs \<Rightarrow> True))"

definition should_repair :: "agent_state \<Rightarrow> node" where
  "should_repair state =
     (if truthy (sql_error state) \<and> repair_count state < max_repairs state
      then Repair else Synthesizer)"

definition route_after_router :: "agent_state \<Rightarrow> node" where
  "route_after_router state =
     (if route state \<in> set [''rag'', ''hybrid''] then Retriever else Planner)"

text \<open>
  \<open>build_graph\<close>: \<open>run_node\<close> runs the function of a node and gives what the node
  returns or raises, with the calls it made; \<open>next_node\<close> follows the edge that
  leaves the node, from the state the node returned.
\<close>

fun run_node ::
  "collaborators \<Rightarrow> node \<Rightarrow> agent_state \<Rightarrow> (py_error + agent_state) \<times> call list" where
  "run_node c Router state = (case router_node c state of (s, made) \<Rightarrow> (Inr s, made))"
| "run_node c Retriever state = retriever_node c state"
| "run_node c Planner state = (Inr (planner_node state), [])"
| "run_node c NL2SQL state = (case nl2sql_node c state of (s, made) \<Rightarrow> (Inr s, made))"
| "run_node c Executor state = (case executor_node c state of (s, made) \<Rightarrow> (Inr s, made))"
| "run_node c Repair state = (Inr (repair_node state), [])"
| "run_node c Synthesizer state = synthesizer_node c state"
| "run_node c END state = (Inr state, [])"

fun next_node :: "node \<Rightarrow> agent_state \<Rightarrow> node" where
  "next_node Router state = route_after_router state"
| "next_node Retriever state = Planner"
| "next_node Planner state = NL2SQL"
| "next_node NL2SQL state = Executor"
| "next_node Executor state = should_repair state"
| "next_node Repair state = NL2SQL"
| "next_node Synthesizer state = END"
| "next_node END state = END"

text \<open>
  What a run leaves behind: the nodes it entered, each with the state it was entered
  in, the calls to the collaborators in their order, and the final state or the
  exception that ended the run.
\<close>

record run_result =
  path :: "(node \<times> agent_state) list"
  calls :: "call list"
  outcome :: "py_error + agent_state"

text \<open>
  \<open>graph.invoke\<close> is called without a configuration, so the graph library runs the
  graph under its default recursion limit of 25 steps, one step for every node that
  is entered. \<open>drive c k n state\<close> runs the graph from the node \<open>n\<close> with \<open>k\<close> steps
  left: a run that is not at its end when no step is left stops with a
  \<open>GraphRecursionError\<close>. A run that is at its end with no step left counts as
  finished here; no run of this graph ends after exactly 25 nodes (lemma
  \<open>finished_run_length\<close>), so the reading of that boundary does not matter.
\<close>

definition recursion_limit :: nat where
  "recursion_limit = 25"

fun drive :: "collaborators \<Rightarrow> nat \<Rightarrow> node \<Rightarrow> agent_state \<Rightarrow> run_result" where
  "drive c 0 n state =
     (if n = END then \<lparr>path = [], calls = [], outcome = Inr state\<rparr>
      else \<lparr>path = [], calls = [], outcome = Inl GraphRecursionError\<rparr>)"
| "drive c (Suc k) n state =
     (if n = END then \<lparr>path = [], calls = [], outcome = Inr state\<rparr>
      else (case run_node c n state of
              (Inl e, made) \<Rightarrow> \<lparr>path = [(n, state)], calls = made, outcome = Inl e\<rparr>
            | (Inr state', made) \<Rightarrow>
                (let r = drive c k (next_node n state') state'
                 in \<lparr>path = (n, state) # path r, calls = made @ calls r, outcome = outcome r\<rparr>)))"

declare drive.simps(2) [simp del]

definition initial_state :: "string \<Rightarrow> string \<Rightarrow> int \<Rightarrow> agent_state" where
  "initial_state q fmt mr =
     \<lparr>question = q, format_hint = fmt, route = [], retrieved_chunks = [],
      constraints = empty_constraints, sql_query = [], sql_results = None,
      sql_error = None, final_answer = PyNone, explanation = [], confidence = Fin 0,
      citations = {}, repair_count = 0, max_repairs = mr\<rparr>"

text \<open>\<open>HybridAgent.run\<close>: the graph is entered at the router.\<close>

definition run :: "collaborators \<Rightarrow> string \<Rightarrow> string \<Rightarrow> int \<Rightarrow> run_result" where
  "run c q fmt mr = drive c recursion_limit Router (initial_state q fmt mr)"

text \<open>
  The number of nodes that a run can still enter from a node when no limit stops it:
  each repair uses up one of the \<open>max_repairs - repair_count\<close> that are left.
\<close>

definition repairs_left :: "agent_state \<Rightarrow> nat" where
  "repairs_left state = nat (max_repairs state - repair_count state)"

fun steps_bound :: "node \<Rightarrow> agent_state \<Rightarrow> nat" where
  "steps_bound Router state = 3 * repairs_left state + 6"
| "steps_bound Retriever state = 3 * repairs_left state + 5"
| "steps_bound Planner state = 3 * repairs_left state + 4"
| "steps_bound NL2SQL state = 3 * repairs_left state + 3"
| "steps_bound Executor state = 3 * repairs_left state + 2"
| "steps_bound Repair state = (if repairs_left state = 0 then 4 else 3 * repairs_left state + 1)"
| "steps_bound Synthesizer state = 1"
| "steps_bound END state = 0"

section \<open>The type family of a format hint\<close>

text \<open>
  The shape that a format hint declares for the final answer: an integer for \<open>int\<close>,
  a number for \<open>float\<close>, an object for a hint that starts with a brace, a sequence
  for a hint that starts with \<open>list\<close>, anything for free text.
\<close>

definition is_integer :: "pyval \<Rightarrow> bool" where
  "is_integer v = (case v of PyInt i \<Rightarrow> True | _ \<Rightarrow> False)"

definition is_number :: "pyval \<Rightarrow> bool" where
  "is_number v = (case v of PyInt i \<Rightarrow> True | PyFloat x \<Rightarrow> True | _ \<Rightarrow> False)"

definition is_object :: "pyval \<Rightarrow> bool" where
  "is_object v = (case v of PyDict d \<Rightarrow> True | _ \<Rightarrow> False)"

definition is_sequence :: "pyval \<Rightarrow> bool" where
  "is_sequence v = (case v of PyList l \<Rightarrow> True | _ \<Rightarrow> False)"

definition matches_family :: "string \<Rightarrow> pyval \<Rightarrow> bool" where
  "matches_family fmt v =
     (if fmt = ''int'' then is_integer v
      else if fmt = ''float'' then is_number v
      else if startswith fmt ''{'' then is_object v
      else if startswith fmt ''list'' then is_sequence v
      else True)"

text \<open>
  The conversion that the hint asks for goes through on the cleaned text: \<open>int\<close> on
  the first run of digits, \<open>float\<close> on the first run of digits and dots, and for an
  object or a list hint \<open>json.loads\<close> either fails, which leads to the rows of the
  query, or yields a value of the right shape.
\<close>

definition conversion_succeeds :: "(string \<Rightarrow> pyval option) \<Rightarrow> string \<Rightarrow> string \<Rightarrow> bool" where
  "conversion_succeeds loads answer fmt =
     (if fmt = ''int'' then
        (case search_run is_digit (clean_answer answer) of
           None \<Rightarrow> True
         | Some m \<Rightarrow> length m \<le> int_max_str_digits)
      else if fmt = ''float'' then
        (case search_run is_digit_or_dot (clean_answer answer) of
           None \<Rightarrow> True
         | Some m \<Rightarrow> (case py_float m of None \<Rightarrow> False | Some x \<Rightarrow> True))
      else if startswith fmt ''{'' then
        (case loads (clean_answer answer) of None \<Rightarrow> True | Some v \<Rightarrow> is_object v)
      else if startswith fmt ''list'' then
        (case loads (clean_answer answer) of None \<Rightarrow> True | Some v \<Rightarrow> is_sequence v)
      else True)"

text \<open>The interval of a confidence.\<close>

definition in_unit_interval :: "pyfloat \<Rightarrow> bool" where
  "in_unit_interval x = (case x of Fin r \<Rightarrow> 0 \<le> r \<and> r \<le> 1 | _ \<Rightarrow> False)"

text \<open>The chunks whose content holds a date range, in the order of retrieval.\<close>

definition dated_chunks :: "doc_chunk list \<Rightarrow> doc_chunk list" where
  "dated_chunks chunks = filter (\<lambda>ch. date_findall (content ch) \<noteq> []) chunks"

section \<open>Example inputs\<close>

definition beverages_chunk :: doc_chunk where
  "beverages_chunk =
     \<lparr>chunk_id = ''catalog.md::chunk1'', content = ''Beverages and Seafood are categories'',
      source = ''catalog.md'', score = 0.4\<rparr>"

definition summer_chunk :: doc_chunk where
  "summer_chunk =
     \<lparr>chunk_id = ''marketing_calendar.md::chunk1'',
      content = ''Summer Beverages 1997: 1997-06-01 to 1997-06-30'',
      source = ''marketing_calendar.md'', score = 0.6\<rparr>"

definition winter_chunk :: doc_chunk where
  "winter_chunk =
     \<lparr>chunk_id = ''marketing_calendar.md::chunk2'',
      content = ''Winter Classics 1997: 1997-12-01 to 1997-12-31'',
      source = ''marketing_calendar.md'', score = 0.3\<rparr>"

text \<open>
  A \<open>json.loads\<close> that knows the text \<open>42\<close>, which denotes the integer 42, one that
  accepts nothing, a state before synthesis, and two engines.
\<close>

definition loads_42 :: "string \<Rightarrow> pyval option" where
  "loads_42 s = (if s = ''42'' then Some (PyInt 42) else None)"

definition loads_nothing :: "string \<Rightarrow> pyval option" where
  "loads_nothing s = None"

definition no_sales_engine :: "string \<Rightarrow> engine_outcome" where
  "no_sales_engine q = SqliteError ''no such table: sales''"

definition one_row_engine :: "string \<Rightarrow> engine_outcome" where
  "one_row_engine q = Fetched [\<lparr>row_keys = [''total''], row_dict = [(''total'', PyInt 830)]\<rparr>]"

text \<open>
  A \<open>json.loads\<close> that knows an empty object and a list of two numbers, and a result
  of one row.
\<close>

definition loads_small :: "string \<Rightarrow> pyval option" where
  "loads_small s =
     (if s = ''{}'' then Some (PyDict [])
      else if s = ''[1, 2]'' then Some (PyList [PyInt 1, PyInt 2])
      else None)"

definition one_row_result :: sql_result where
  "one_row_result = execute_sql one_row_engine (PyStr ''SELECT COUNT(*) AS total FROM Orders'')"

text \<open>
  Two states before synthesis with the same table references and the same chunks: in
  the second the chunks are swapped and the query names \<open>Orders\<close> twice.
\<close>

definition cited_state :: agent_state where
  "cited_state =
     (initial_state ''Total revenue during summer?'' ''float'' 2)
       \<lparr>route := ''hybrid'',
        retrieved_chunks := [summer_chunk, winter_chunk],
        sql_query := ''SELECT SUM(x) FROM Orders o JOIN Customers c ON o.id = c.id''\<rparr>"

definition cited_state' :: agent_state where
  "cited_state' =
     (initial_state ''Total revenue during summer?'' ''float'' 2)
       \<lparr>route := ''hybrid'',
        retrieved_chunks := [winter_chunk, summer_chunk],
        sql_query := ''SELECT SUM(x) FROM Customers c JOIN Orders o JOIN Orders p''\<rparr>"






definition first_is_best :: vector_library where
  "first_is_best =
     \<lparr>can_fit = (\<lambda>texts. texts \<noteq> []),
      similarity = (\<lambda>texts q i. if i = 0 then 0.6 else 0.3),
      tie_break = (\<lambda>xs i. i)\<rparr>"

definition calendar_retriever :: document_retriever where
  "calendar_retriever =
     \<lparr>retriever_chunks =
        [\<lparr>chunk_id = ''marketing_calendar.md::chunk0'',
          content = ''Summer Beverages 1997: 1997-06-01 to 1997-06-30'',
          source = ''marketing_calendar.md''\<rparr>,
         \<lparr>chunk_id = ''marketing_calendar.md::chunk1'',
          content = ''Winter Classics 1997: 1997-12-01 to 1997-12-31'',
          source = ''marketing_calendar.md''\<rparr>]\<rparr>"

definition failing_collaborators :: collaborators where
  "failing_collaborators =
     \<lparr>llm_classify = (\<lambda>q. Some ''sql''),
      vectors = first_is_best,
      retriever = calendar_retriever,
      llm_nl2sql = (\<lambda>i q cs e. ''SELECT x FROM t''),
      sql_engine = (\<lambda>i q. SqliteError ''no such column: x''),
      llm_synthesize = (\<lambda>q chunks r fmt.
         \<lparr>synth_answer = ''14'', synth_explanation = ''Stated in the policy.'',
          synth_confidence = ''0.8''\<rparr>),
      json_loads = loads_nothing\<rparr>"

section \<open>Observations on a run\<close>

text \<open>
  \<open>counter_steps\<close> reads a path two entries at a time: from one entry to the next
  the repair count grows by one when the first node is the repair node and stays as
  it is otherwise, and the repair node is entered from the executor only.
\<close>

fun counter_steps :: "(node \<times> agent_state) list \<Rightarrow> bool" where
  "counter_steps ((n, s) # (n', s') # p) =
     (repair_count s' = (if n = Repair then repair_count s + 1 else repair_count s)
      \<and> (if n' = Repair then n = Executor else True)
      \<and> counter_steps ((n', s') # p))"
| "counter_steps p = True"

text \<open>The last execution failed: the state holds a result that is not a success.\<close>

definition failed_execution :: "agent_state \<Rightarrow> bool" where
  "failed_execution state =
     (case sql_results state of None \<Rightarrow> False | Some r \<Rightarrow> \<not> success r)"

text \<open>
  The error of the state is the error of the result it holds, and a result that is a
  success has no error.
\<close>

definition error_of_result :: "agent_state \<Rightarrow> bool" where
  "error_of_result state =
     (case sql_results state of
        None \<Rightarrow> sql_error state = None
      | Some r \<Rightarrow> sql_error state = error r \<and> (error r = None \<or> \<not> success r))"

definition is_generate :: "call \<Rightarrow> bool" where
  "is_generate x = (case x of Generate e \<Rightarrow> True | _ \<Rightarrow> False)"

definition is_execute :: "call \<Rightarrow> bool" where
  "is_execute x = (case x of Execute q \<Rightarrow> True | _ \<Rightarrow> False)"

text \<open>The number of calls to the query generator that a run can still make from a node.\<close>

fun generations_bound :: "node \<Rightarrow> agent_state \<Rightarrow> nat" where
  "generations_bound Executor state = repairs_left state"
| "generations_bound Repair state = (if repairs_left state = 0 then 1 else repairs_left state)"
| "generations_bound Synthesizer state = 0"
| "generations_bound END state = 0"
| "generations_bound n state = repairs_left state + 1"

text \<open>
  What holds in every state of a run with the bound \<open>mr\<close>: the bound is kept, the
  repair count lies between 0 and the bound, the error is the error of the last
  result, and the repair node is entered with an error and a count below the bound.
\<close>

definition repair_invariant :: "int \<Rightarrow> node \<Rightarrow> agent_state \<Rightarrow> bool" where
  "repair_invariant mr n state =
     (max_repairs state = mr \<and> 0 \<le> repair_count state \<and> repair_count state \<le> mr
      \<and> error_of_result state
      \<and> (if n = Repair then truthy (sql_error state) \<and> repair_count state < mr else True))"

text \<open>The state that the router node hands on.\<close>

definition routed_state :: "collaborators \<Rightarrow> string \<Rightarrow> string \<Rightarrow> int \<Rightarrow> agent_state" where
  "routed_state c q fmt mr =
     (initial_state q fmt mr)\<lparr>route := fst (forward (llm_classify c) q)\<rparr>"

text \<open>
  The SQL fields of a state are as the run started them, and the repair node is not
  the node at hand.
\<close>

definition sql_untouched :: "node \<times> agent_state \<Rightarrow> bool" where
  "sql_untouched x =
     (case x of (n, state) \<Rightarrow>
        sql_query state = [] \<and> sql_results state = None \<and> sql_error state = None
        \<and> repair_count state = 0 \<and> n \<noteq> Repair)"

text \<open>
  What holds along a run for the question \<open>q\<close> that the router sends to \<open>rag\<close>; at
  the end the citations are the ids of the retrieved chunks.
\<close>

definition rag_invariant :: "string \<Rightarrow> node \<Rightarrow> agent_state \<Rightarrow> bool" where
  "rag_invariant q n state =
     (question state = q \<and> sql_untouched (n, state)
      \<and> (n = Router \<or> route state = ''rag'')
      \<and> (if n = END then citations state = chunk_id ` set (retrieved_chunks state) else True))"

text \<open>The number of nodes that a run on the route \<open>rag\<close> can still enter from a node.\<close>

fun rag_steps :: "node \<Rightarrow> nat" where
  "rag_steps Router = 6"
| "rag_steps Retriever = 5"
| "rag_steps Planner = 4"
| "rag_steps NL2SQL = 3"
| "rag_steps Executor = 2"
| "rag_steps Synthesizer = 1"
| "rag_steps Repair = 1"
| "rag_steps END = 0"

text \<open>
  The place of a node in the path of a run, read off the state: the router is the
  first node, the retriever adds one node on the routes \<open>rag\<close> and \<open>hybrid\<close>, and
  every repair adds three.
\<close>

definition detour :: "agent_state \<Rightarrow> int" where
  "detour state = (if route state \<in> set [''rag'', ''hybrid''] then 1 else 0)"

fun node_position :: "node \<Rightarrow> agent_state \<Rightarrow> int" where
  "node_position Router state = 1 + 3 * repair_count state"
| "node_position Retriever state = 1 + detour state + 3 * repair_count state"
| "node_position Planner state = 2 + detour state + 3 * repair_count state"
| "node_position NL2SQL state = 3 + detour state + 3 * repair_count state"
| "node_position Executor state = 4 + detour state + 3 * repair_count state"
| "node_position Repair state = 5 + detour state + 3 * repair_count state"
| "node_position Synthesizer state = 5 + detour state + 3 * repair_count state"
| "node_position END state = 6 + detour state + 3 * repair_count state"


text \<open>
  A state within the bound \<open>mr\<close>, and a visit of the repair node that is justified:
  the last execution failed and the count is below the bound.
\<close>

definition within_bound :: "int \<Rightarrow> node \<times> agent_state \<Rightarrow> bool" where
  "within_bound mr x = (case x of (n, state) \<Rightarrow> 0 \<le> repair_count state \<and> repair_count state \<le> mr)"

definition repair_justified :: "int \<Rightarrow> node \<times> agent_state \<Rightarrow> bool" where
  "repair_justified mr x =
     (case x of (n, state) \<Rightarrow>
        if n = Repair then failed_execution state \<and> repair_count state < mr else True)"

section \<open>Properties of the router\<close>

text \<open>
  C6. A question whose lowercased text contains one of the words \<open>policy\<close>,
  \<open>return window\<close>, \<open>return days\<close>, \<open>definition\<close> is routed to \<open>rag\<close>, and the
  text-generation collaborator is not invoked, whatever it would have answered: the
  lexical rule is applied first.
\<close>

theorem router_policy_rag:
  assumes "any_in [''policy'', ''return window'', ''return days'', ''definition''] (py_lower q)"
  shows "forward classify q = (''rag'', [])"
  using assms by (simp add: forward_def rag_words_def)

theorem router_policy_rag_witness:
  "any_in [''policy'', ''return window'', ''return days'', ''definition'']
     (py_lower ''What is the Return Window?'')
   \<and> forward (\<lambda>q. Some ''sql'') ''What is the Return Window?'' = (''rag'', [])"
proof -
  have h: "any_in [''policy'', ''return window'', ''return days'', ''definition'']
     (py_lower ''What is the Return Window?'')"
    by code_simp
  from h router_policy_rag [OF h, of "\<lambda>q. Some ''sql''"] show ?thesis by simp
qed


section \<open>Properties of constraint extraction\<close>

lemma category_constrain_chunk:
  "asking_about_category q \<Longrightarrow> category (constrain_chunk q cs ch) = category cs"
  by (simp add: constrain_chunk_def constrain_margin_def constrain_aov_def
      constrain_category_def constrain_dates_def split: list.splits)

lemma category_foldl:
  "asking_about_category q \<Longrightarrow> category (foldl (constrain_chunk q) cs chunks) = category cs"
  by (induction chunks arbitrary: cs) (simp_all add: category_constrain_chunk)

text \<open>
  C4. When the lowercased question contains one of the phrases \<open>which category\<close>,
  \<open>which product category\<close>, \<open>what category\<close>, \<open>top category\<close>, \<open>highest category\<close>,
  \<open>best category\<close>, the extracted constraints have no \<open>category\<close> key, whatever the
  chunks contain.
\<close>

theorem no_category_when_asking:
  assumes "any_in [''which category'', ''which product category'', ''what category'',
                   ''top category'', ''highest category'', ''best category''] (py_lower q)"
  shows "category (extract_constraints q chunks) = None"
proof -
  from assms have "asking_about_category q"
    by (simp add: asking_about_category_def category_phrases_def)
  then show ?thesis
    by (simp add: extract_constraints_def category_foldl empty_constraints_def)
qed

theorem no_category_when_asking_witness:
  "any_in [''which category'', ''which product category'', ''what category'',
           ''top category'', ''highest category'', ''best category'']
     (py_lower ''Which category sold most?'')
   \<and> py_in ''Beverages'' (content beverages_chunk)
   \<and> category (extract_constraints ''Which category sold most?'' [beverages_chunk]) = None
   \<and> category (extract_constraints ''What sold most?'' [beverages_chunk]) = Some ''Beverages''"
proof -
  have h: "any_in [''which category'', ''which product category'', ''what category'',
                   ''top category'', ''highest category'', ''best category'']
             (py_lower ''Which category sold most?'')"
    by code_simp
  have a: "py_in ''Beverages'' (content beverages_chunk)"
    by code_simp
  have b: "category (extract_constraints ''What sold most?'' [beverages_chunk]) = Some ''Beverages''"
    by code_simp
  from h a b no_category_when_asking [OF h, of "[beverages_chunk]"] show ?thesis
    by simp
qed

lemma date_range_constrain_chunk:
  "date_range (constrain_chunk q cs ch) =
     (case date_findall (content ch) of [] \<Rightarrow> date_range cs | m # ms \<Rightarrow> Some m)"
  by (simp add: constrain_chunk_def constrain_margin_def constrain_aov_def
      constrain_category_def constrain_dates_def split: list.splits option.splits)

lemma date_range_foldl:
  "date_range (foldl (constrain_chunk q) cs chunks) =
     (if dated_chunks chunks = [] then date_range cs
      else Some (hd (date_findall (content (last (dated_chunks chunks))))))"
proof (induction chunks rule: rev_induct)
  case Nil
  then show ?case by (simp add: dated_chunks_def)
next
  case (snoc ch chunks)
  show ?case
  proof (cases "date_findall (content ch)")
    case Nil
    with snoc show ?thesis
      by (simp add: date_range_constrain_chunk dated_chunks_def)
  next
    case (Cons m ms)
    then have "dated_chunks (chunks @ [ch]) = dated_chunks chunks @ [ch]"
      by (simp add: dated_chunks_def)
    with Cons show ?thesis
      by (simp add: date_range_constrain_chunk)
  qed
qed

text \<open>
  C5, as the code has it. Every chunk with a date range overwrites the \<open>date_range\<close>
  key, so what is recorded is the first match of the last chunk, in the order of
  retrieval, that holds a date range.
\<close>

theorem date_range_last_chunk:
  assumes "dated_chunks chunks \<noteq> []"
  shows "date_range (extract_constraints q chunks)
         = Some (hd (date_findall (content (last (dated_chunks chunks)))))"
  using assms by (simp add: extract_constraints_def date_range_foldl)

theorem date_range_last_chunk_witness:
  "dated_chunks [summer_chunk, beverages_chunk, winter_chunk, beverages_chunk] \<noteq> []
   \<and> date_range (extract_constraints ''Total revenue during the campaign?''
        [summer_chunk, beverages_chunk, winter_chunk, beverages_chunk])
     = Some (''1997-12-01'', ''1997-12-31'')"
proof -
  have h: "dated_chunks [summer_chunk, beverages_chunk, winter_chunk, beverages_chunk] \<noteq> []"
    by code_simp
  have e: "hd (date_findall (content (last (dated_chunks
             [summer_chunk, beverages_chunk, winter_chunk, beverages_chunk]))))
           = (''1997-12-01'', ''1997-12-31'')"
    by code_simp
  from h e date_range_last_chunk [OF h, of "''Total revenue during the campaign?''"]
  show ?thesis by simp
qed

text \<open>
  The claim as the specification words it fails when two retrieved chunks hold
  different date ranges: the earliest chunk with a match is the summer one, and the
  constraint recorded is the winter range.
\<close>

theorem date_range_first_chunk_counterexample:
  "hd (dated_chunks [summer_chunk, winter_chunk]) = summer_chunk
   \<and> hd (date_findall (content summer_chunk)) = (''1997-06-01'', ''1997-06-30'')
   \<and> date_range (extract_constraints ''Total revenue during the campaign?''
        [summer_chunk, winter_chunk])
     = Some (''1997-12-01'', ''1997-12-31'')
   \<and> date_range (extract_constraints ''Total revenue during the campaign?''
        [summer_chunk, winter_chunk])
     \<noteq> Some (hd (date_findall (content (hd (dated_chunks [summer_chunk, winter_chunk])))))"
  by code_simp


section \<open>Properties of the confidence score\<close>

lemma fl_clamp_fin: "py_min (py_max (Fin x) (Fin 0)) (Fin 1) = Fin (min (max x 0) 1)"
  by (simp add: py_min_def py_max_def min_def max_def)

text \<open>
  The score by cases of the self-report: the clamped mean of the heuristic sum and a
  finite self-report, the clamped heuristic sum when the self-report does not parse,
  1 and 0 for the infinities, and NaN for a self-report that parses to NaN.
\<close>

lemma confidence_formula:
  "calculate_confidence state r =
     (case py_float (synth_confidence r) of
        None \<Rightarrow> Fin (min (max (heuristic_sum state) 0) 1)
      | Some (Fin m) \<Rightarrow> Fin (min (max ((heuristic_sum state + m) / 2) 0) 1)
      | Some PInf \<Rightarrow> Fin 1
      | Some NInf \<Rightarrow> Fin 0
      | Some NaN \<Rightarrow> NaN)"
  by (simp add: calculate_confidence_def fl_clamp_fin py_min_def py_max_def Let_def
      split: option.splits pyfloat.splits)

lemma confidence_in_range:
  assumes "py_float (synth_confidence r) \<noteq> Some NaN"
  shows "in_unit_interval (calculate_confidence state r)"
  using assms unfolding confidence_formula
  by (auto simp: in_unit_interval_def split: option.splits pyfloat.splits)

text \<open>
  C2. The score is meant to lie in the unit interval for every self-report. For the
  self-report \<open>nan\<close>, which \<open>float\<close> accepts, the mean is NaN, and \<open>min\<close> and \<open>max\<close>
  keep a NaN that stands first: the score is NaN, in every state.
\<close>

theorem confidence_nan_escapes_clamp:
  "calculate_confidence state
     \<lparr>synth_answer = a, synth_explanation = e, synth_confidence = ''nan''\<rparr> = NaN
   \<and> in_unit_interval (calculate_confidence state
        \<lparr>synth_answer = a, synth_explanation = e, synth_confidence = ''nan''\<rparr>) = False"
proof -
  have "py_float ''nan'' = Some NaN"
    by code_simp
  then show ?thesis
    by (simp add: confidence_formula in_unit_interval_def)
qed

section \<open>Properties of the SQL tool\<close>

text \<open>
  C9. \<open>execute_sql\<close> returns a result for every argument and every answer of the
  engine. A result that is not a success has no rows, no columns, the row count 0 and
  an error text; that is the result for an argument that is not a string, for the
  empty string and for every error of the engine. A success has no error, and its row
  count is the number of its rows.
\<close>

theorem execute_sql_result:
  "(success (execute_sql engine query) \<longrightarrow>
      error (execute_sql engine query) = None
      \<and> row_count (execute_sql engine query) = length (rows (execute_sql engine query)))
   \<and> (\<not> success (execute_sql engine query) \<longrightarrow>
      rows (execute_sql engine query) = [] \<and> columns (execute_sql engine query) = []
      \<and> row_count (execute_sql engine query) = 0
      \<and> (\<exists>msg. error (execute_sql engine query) = Some msg))
   \<and> ((\<forall>q. query \<noteq> PyStr q) \<longrightarrow> \<not> success (execute_sql engine query))
   \<and> \<not> success (execute_sql engine (PyStr []))
   \<and> (\<forall>q msg. engine (py_strip q) = SqliteError msg \<longrightarrow> \<not> success (execute_sql engine (PyStr q)))
   \<and> (\<forall>q msg. engine (py_strip q) = OtherException msg \<longrightarrow> \<not> success (execute_sql engine (PyStr q)))"
proof -
  have a: "success (execute_sql engine query) \<longrightarrow>
      error (execute_sql engine query) = None
      \<and> row_count (execute_sql engine query) = length (rows (execute_sql engine query))"
    by (simp add: execute_sql_def failure_def split: pyval.splits engine_outcome.splits)
  have b: "\<not> success (execute_sql engine query) \<longrightarrow>
      rows (execute_sql engine query) = [] \<and> columns (execute_sql engine query) = []
      \<and> row_count (execute_sql engine query) = 0
      \<and> (\<exists>msg. error (execute_sql engine query) = Some msg)"
    by (simp add: execute_sql_def failure_def split: pyval.splits engine_outcome.splits)
  have c: "(\<forall>q. query \<noteq> PyStr q) \<longrightarrow> \<not> success (execute_sql engine query)"
    by (cases query) (simp_all add: execute_sql_def failure_def)
  have d: "\<not> success (execute_sql engine (PyStr []))"
    by (simp add: execute_sql_def failure_def)
  have e: "\<forall>q msg. engine (py_strip q) = SqliteError msg \<longrightarrow> \<not> success (execute_sql engine (PyStr q))"
    by (auto simp: execute_sql_def failure_def)
  have f: "\<forall>q msg. engine (py_strip q) = OtherException msg \<longrightarrow> \<not> success (execute_sql engine (PyStr q))"
    by (auto simp: execute_sql_def failure_def)
  from a b c d e f show ?thesis by blast
qed

theorem execute_sql_result_witness:
  "success (execute_sql one_row_engine (PyStr ''SELECT COUNT(*) AS total FROM Orders''))
   \<and> error (execute_sql one_row_engine (PyStr ''SELECT COUNT(*) AS total FROM Orders'')) = None
   \<and> row_count (execute_sql one_row_engine (PyStr ''SELECT COUNT(*) AS total FROM Orders'')) = 1
   \<and> \<not> success (execute_sql no_sales_engine (PyStr ''SELECT * FROM sales''))
   \<and> rows (execute_sql no_sales_engine (PyStr ''SELECT * FROM sales'')) = []
   \<and> row_count (execute_sql no_sales_engine (PyStr ''SELECT * FROM sales'')) = 0
   \<and> (\<exists>msg. error (execute_sql no_sales_engine (PyStr ''SELECT * FROM sales'')) = Some msg)
   \<and> \<not> success (execute_sql one_row_engine (PyInt 7))"
proof -
  have s: "success (execute_sql one_row_engine (PyStr ''SELECT COUNT(*) AS total FROM Orders''))"
    by code_simp
  have n: "length (rows (execute_sql one_row_engine (PyStr ''SELECT COUNT(*) AS total FROM Orders''))) = 1"
    by code_simp
  have e: "no_sales_engine (py_strip ''SELECT * FROM sales'') = SqliteError ''no such table: sales''"
    by (simp add: no_sales_engine_def)
  have i: "\<forall>q. PyInt 7 \<noteq> PyStr q"
    by simp
  from s n e i
    execute_sql_result [of one_row_engine "PyStr ''SELECT COUNT(*) AS total FROM Orders''"]
    execute_sql_result [of no_sales_engine "PyStr ''SELECT * FROM sales''"]
    execute_sql_result [of one_row_engine "PyInt 7"]
  show ?thesis by metis
qed

section \<open>Properties of the answer parser\<close>

lemma set_sub_fences: "set (sub_fences tags bol k s) \<subseteq> set s"
  by (induction s arbitrary: bol k) (auto split: option.splits)

lemma length_sub_fences: "length (sub_fences tags bol k s) \<le> length s"
  by (induction s arbitrary: bol k) (auto split: option.splits intro: le_SucI)

lemma set_py_strip: "set (py_strip s) \<subseteq> set s"
proof
  fix x assume "x \<in> set (py_strip s)"
  then have "x \<in> set (dropWhile is_space (rev (dropWhile is_space s)))"
    by (simp add: py_strip_def)
  then have "x \<in> set (rev (dropWhile is_space s))"
    by (rule set_dropWhileD)
  then show "x \<in> set s"
    by (auto dest: set_dropWhileD)
qed

lemma length_py_strip: "length (py_strip s) \<le> length s"
proof -
  have "length (py_strip s) \<le> length (rev (dropWhile is_space s))"
    unfolding py_strip_def using length_dropWhile_le [of is_space "rev (dropWhile is_space s)"]
    by simp
  also have "\<dots> \<le> length s"
    by (simp add: length_dropWhile_le)
  finally show ?thesis .
qed

lemma set_clean_answer: "set (clean_answer a) \<subseteq> set a"
  unfolding clean_answer_def using set_sub_fences set_py_strip by blast

lemma length_clean_answer: "length (clean_answer a) \<le> length a"
  unfolding clean_answer_def using length_sub_fences length_py_strip order_trans by blast

lemma search_run_None: "(search_run cls s = None) = (\<forall>c\<in>set s. \<not> cls c)"
proof (cases "dropWhile (\<lambda>c. \<not> cls c) s")
  case Nil
  then have "\<forall>c\<in>set s. \<not> cls c"
    using dropWhile_eq_Nil_conv [of "\<lambda>c. \<not> cls c" s] by blast
  moreover from Nil have "search_run cls s = None"
    unfolding search_run_def by (rule ssubst) simp
  ultimately show ?thesis by blast
next
  case (Cons x xs)
  then have "\<not> (\<forall>c\<in>set s. \<not> cls c)"
    using dropWhile_eq_Nil_conv [of "\<lambda>c. \<not> cls c" s] by auto
  moreover from Cons have "search_run cls s \<noteq> None"
    unfolding search_run_def by (rule ssubst) simp
  ultimately show ?thesis by blast
qed

lemma search_run_length:
  assumes "search_run cls s = Some m"
  shows "length m \<le> length s"
proof -
  from assms obtain c cs where d: "dropWhile (\<lambda>c. \<not> cls c) s = c # cs" and m: "m = takeWhile cls (c # cs)"
    by (auto simp: search_run_def split: list.splits)
  have "length m \<le> length (c # cs)"
    unfolding m by (rule length_takeWhile_le)
  also have "\<dots> \<le> length s"
    using length_dropWhile_le [of "\<lambda>c. \<not> cls c" s] d by simp
  finally show ?thesis .
qed


lemma except_fallback_int: "except_fallback s ''int'' sql = PyStr s"
  by (simp add: except_fallback_def split: list.splits)

lemma except_fallback_float: "except_fallback s ''float'' sql = PyStr s"
  by (simp add: except_fallback_def split: list.splits)


lemma shape_int: "matches_family ''int'' (parse_answer loads a ''int'' sql) = conversion_succeeds loads a ''int''"
proof (cases "search_run is_digit (clean_answer a)")
  case None
  then show ?thesis
    by (simp add: matches_family_def parse_answer_def conversion_succeeds_def is_integer_def)
next
  case (Some m)
  then show ?thesis
    by (simp add: matches_family_def parse_answer_def conversion_succeeds_def py_int_def
        except_fallback_int is_integer_def)
qed

lemma shape_float: "matches_family ''float'' (parse_answer loads a ''float'' sql) = conversion_succeeds loads a ''float''"
proof (cases "search_run is_digit_or_dot (clean_answer a)")
  case None
  then show ?thesis
    by (simp add: matches_family_def parse_answer_def conversion_succeeds_def is_number_def
        split: list.splits option.splits)
next
  case (Some m)
  then show ?thesis
    by (cases "py_float m")
       (simp_all add: matches_family_def parse_answer_def conversion_succeeds_def
        except_fallback_float is_number_def)
qed

lemma parse_answer_object:
  assumes "fmt \<noteq> ''int''" and "fmt \<noteq> ''float''" and "startswith fmt ''{''"
  shows "parse_answer loads a fmt sql =
           (case loads (clean_answer a) of
              Some v \<Rightarrow> v
            | None \<Rightarrow> (case truthy_rows sql of [] \<Rightarrow> PyDict [] | r # rs \<Rightarrow> PyDict r))"
  using assms by (simp add: parse_answer_def)

lemma parse_answer_list:
  assumes "fmt \<noteq> ''int''" and "fmt \<noteq> ''float''" and "\<not> startswith fmt ''{''" and "startswith fmt ''list''"
  shows "parse_answer loads a fmt sql =
           (case loads (clean_answer a) of
              Some v \<Rightarrow> v
            | None \<Rightarrow> PyList (map PyDict (truthy_rows sql)))"
  using assms by (simp add: parse_answer_def)

lemma parse_answer_text:
  assumes "fmt \<noteq> ''int''" and "fmt \<noteq> ''float''" and "\<not> startswith fmt ''{''" and "\<not> startswith fmt ''list''"
  shows "parse_answer loads a fmt sql = PyStr (clean_answer a)"
  using assms by (simp add: parse_answer_def)


lemma conversion_other:
  assumes "fmt \<noteq> ''int''" and "fmt \<noteq> ''float''"
  shows "conversion_succeeds loads a fmt =
     (if startswith fmt ''{'' then
        (case loads (clean_answer a) of None \<Rightarrow> True | Some v \<Rightarrow> is_object v)
      else if startswith fmt ''list'' then
        (case loads (clean_answer a) of None \<Rightarrow> True | Some v \<Rightarrow> is_sequence v)
      else True)"
  unfolding conversion_succeeds_def using assms by (simp only: if_False)

lemma family_other:
  assumes "fmt \<noteq> ''int''" and "fmt \<noteq> ''float''"
  shows "matches_family fmt v =
     (if startswith fmt ''{'' then is_object v
      else if startswith fmt ''list'' then is_sequence v
      else True)"
  unfolding matches_family_def using assms by (simp only: if_False)

lemma shape_other:
  assumes i: "fmt \<noteq> ''int''" and f: "fmt \<noteq> ''float''"
  shows "matches_family fmt (parse_answer loads a fmt sql) = conversion_succeeds loads a fmt"
proof (cases "startswith fmt ''{''")
  case True
  show ?thesis
    unfolding conversion_other [OF i f] family_other [OF i f] parse_answer_object [OF i f True]
    using True by (simp add: is_object_def split: option.splits list.splits)
next
  case False
  show ?thesis
  proof (cases "startswith fmt ''list''")
    case True
    show ?thesis
      unfolding conversion_other [OF i f] family_other [OF i f]
        parse_answer_list [OF i f False True]
      using False True by (simp add: is_sequence_def split: option.splits)
  next
    case nl: False
    show ?thesis
      unfolding conversion_other [OF i f] family_other [OF i f]
        parse_answer_text [OF i f False nl]
      using False nl by simp
  qed
qed

lemma shape_iff: "matches_family fmt (parse_answer loads a fmt sql) = conversion_succeeds loads a fmt"
proof (cases "fmt = ''int''")
  case True
  then show ?thesis using shape_int by blast
next
  case False
  show ?thesis
  proof (cases "fmt = ''float''")
    case True
    then show ?thesis using shape_float by blast
  next
    case nf: False
    from False nf show ?thesis by (rule shape_other)
  qed
qed



lemma no_digit_gives_zero:
  assumes "\<forall>c\<in>set a. \<not> is_digit c"
  shows "parse_answer loads a ''int'' sql = PyInt 0"
proof -
  from assms set_clean_answer [of a] have "\<forall>c\<in>set (clean_answer a). \<not> is_digit c"
    by blast
  then have "search_run is_digit (clean_answer a) = None"
    by (simp only: search_run_None)
  then show ?thesis
    by (simp add: parse_answer_def)
qed

lemma short_answer_converts:
  assumes "length a \<le> int_max_str_digits"
  shows "conversion_succeeds loads a ''int''"
proof (cases "search_run is_digit (clean_answer a)")
  case None
  then show ?thesis by (simp add: conversion_succeeds_def)
next
  case (Some m)
  then have "length m \<le> length (clean_answer a)"
    by (rule search_run_length)
  with length_clean_answer [of a] assms have "length m \<le> int_max_str_digits"
    by linarith
  with Some show ?thesis by (simp add: conversion_succeeds_def)
qed

lemma parse_answer_int:
  "case search_run is_digit (clean_answer a) of
     None \<Rightarrow> parse_answer loads a ''int'' sql = PyInt 0
   | Some m \<Rightarrow> length m \<le> int_max_str_digits
               \<longrightarrow> parse_answer loads a ''int'' sql = PyInt (int (digits_to_nat m))"
  by (cases "search_run is_digit (clean_answer a)")
     (simp_all add: parse_answer_def py_int_def)

lemma parse_answer_float:
  "case search_run is_digit_or_dot (clean_answer a) of
     None \<Rightarrow> parse_answer loads a ''float'' sql
              = PyFloat (case truthy_rows sql of
                           [] \<Rightarrow> Fin 0
                         | r # rs \<Rightarrow> (case first_number r of None \<Rightarrow> Fin 0 | Some x \<Rightarrow> py_round2 x))
   | Some m \<Rightarrow> (\<forall>x. py_float m = Some x
                   \<longrightarrow> parse_answer loads a ''float'' sql = PyFloat (py_round2 x))"
  by (cases "search_run is_digit_or_dot (clean_answer a)")
     (simp_all add: parse_answer_def split: list.splits option.splits)

lemma object_hint:
  assumes "startswith fmt ''{''"
  shows "fmt \<noteq> ''int''" and "fmt \<noteq> ''float''" and "\<not> startswith fmt ''list''"
  using assms by (cases fmt; auto)+

lemma list_hint:
  assumes "startswith fmt ''list''"
  shows "fmt \<noteq> ''int''" and "fmt \<noteq> ''float''" and "\<not> startswith fmt ''{''"
  using assms by (cases fmt; auto)+

lemma shape_object:
  assumes "startswith fmt ''{''"
  shows "parse_answer loads a fmt sql
           = (case loads (clean_answer a) of
                Some v \<Rightarrow> v
              | None \<Rightarrow> PyDict (case truthy_rows sql of [] \<Rightarrow> [] | r # rs \<Rightarrow> r))"
    and "matches_family fmt (parse_answer loads a fmt sql)
           = (case loads (clean_answer a) of None \<Rightarrow> True | Some v \<Rightarrow> is_object v)"
proof -
  note hint = object_hint [OF assms]
  show "parse_answer loads a fmt sql
           = (case loads (clean_answer a) of
                Some v \<Rightarrow> v
              | None \<Rightarrow> PyDict (case truthy_rows sql of [] \<Rightarrow> [] | r # rs \<Rightarrow> r))"
    unfolding parse_answer_object [OF hint(1,2) assms]
    by (simp split: option.splits list.splits)
  have "matches_family fmt (parse_answer loads a fmt sql) = conversion_succeeds loads a fmt"
    by (rule shape_iff)
  also have "\<dots> = (case loads (clean_answer a) of None \<Rightarrow> True | Some v \<Rightarrow> is_object v)"
    unfolding conversion_other [OF hint(1,2)] using assms by simp
  finally show "matches_family fmt (parse_answer loads a fmt sql)
           = (case loads (clean_answer a) of None \<Rightarrow> True | Some v \<Rightarrow> is_object v)" .
qed

lemma shape_list:
  assumes "startswith fmt ''list''"
  shows "parse_answer loads a fmt sql
           = (case loads (clean_answer a) of
                Some v \<Rightarrow> v
              | None \<Rightarrow> PyList (map PyDict (truthy_rows sql)))"
    and "matches_family fmt (parse_answer loads a fmt sql)
           = (case loads (clean_answer a) of None \<Rightarrow> True | Some v \<Rightarrow> is_sequence v)"
proof -
  note hint = list_hint [OF assms]
  show "parse_answer loads a fmt sql
           = (case loads (clean_answer a) of
                Some v \<Rightarrow> v
              | None \<Rightarrow> PyList (map PyDict (truthy_rows sql)))"
    by (rule parse_answer_list [OF hint assms])
  have "matches_family fmt (parse_answer loads a fmt sql) = conversion_succeeds loads a fmt"
    by (rule shape_iff)
  also have "\<dots> = (case loads (clean_answer a) of None \<Rightarrow> True | Some v \<Rightarrow> is_sequence v)"
    unfolding conversion_other [OF hint(1,2)] using assms hint(3) by simp
  finally show "matches_family fmt (parse_answer loads a fmt sql)
           = (case loads (clean_answer a) of None \<Rightarrow> True | Some v \<Rightarrow> is_sequence v)" .
qed

text \<open>
  C3, as the code has it. The answer has the shape of the hint whenever the
  conversion for the hint goes through. For the hint \<open>int\<close> the answer is the number
  of the first run of digits when that run has at most 4300 digits, which is the case
  for every text of at most 4300 characters, and 0 when the text has no digit. For
  the hint \<open>float\<close> it is the rounded value of the first run of digits and dots when
  that run is a float literal, and without such a run the rounded first number of the
  first row, or 0.0. For an object or a list hint it is the first row or the empty
  object, or the list of the rows, when \<open>json.loads\<close> fails, and otherwise the value
  that \<open>json.loads\<close> gives, as it is: the shape is that of the hint exactly when this
  value is an object, or a list. A hint of no family gives the cleaned text.
\<close>

theorem answer_shape:
  "(conversion_succeeds loads a fmt \<longrightarrow> matches_family fmt (parse_answer loads a fmt sql))
   \<and> (case search_run is_digit (clean_answer a) of
        None \<Rightarrow> parse_answer loads a ''int'' sql = PyInt 0
      | Some m \<Rightarrow> length m \<le> int_max_str_digits
                  \<longrightarrow> parse_answer loads a ''int'' sql = PyInt (int (digits_to_nat m)))
   \<and> (case search_run is_digit_or_dot (clean_answer a) of
        None \<Rightarrow> parse_answer loads a ''float'' sql
                 = PyFloat (case truthy_rows sql of
                              [] \<Rightarrow> Fin 0
                            | r # rs \<Rightarrow> (case first_number r of None \<Rightarrow> Fin 0 | Some x \<Rightarrow> py_round2 x))
      | Some m \<Rightarrow> (\<forall>x. py_float m = Some x
                      \<longrightarrow> parse_answer loads a ''float'' sql = PyFloat (py_round2 x)))
   \<and> (startswith fmt ''{'' \<longrightarrow>
        parse_answer loads a fmt sql
          = (case loads (clean_answer a) of
               Some v \<Rightarrow> v
             | None \<Rightarrow> PyDict (case truthy_rows sql of [] \<Rightarrow> [] | r # rs \<Rightarrow> r))
        \<and> matches_family fmt (parse_answer loads a fmt sql)
          = (case loads (clean_answer a) of None \<Rightarrow> True | Some v \<Rightarrow> is_object v))
   \<and> (startswith fmt ''list'' \<longrightarrow>
        parse_answer loads a fmt sql
          = (case loads (clean_answer a) of
               Some v \<Rightarrow> v
             | None \<Rightarrow> PyList (map PyDict (truthy_rows sql)))
        \<and> matches_family fmt (parse_answer loads a fmt sql)
          = (case loads (clean_answer a) of None \<Rightarrow> True | Some v \<Rightarrow> is_sequence v))
   \<and> (fmt \<noteq> ''int'' \<and> fmt \<noteq> ''float'' \<and> \<not> startswith fmt ''{'' \<and> \<not> startswith fmt ''list''
        \<longrightarrow> parse_answer loads a fmt sql = PyStr (clean_answer a))
   \<and> ((\<forall>c\<in>set a. \<not> is_digit c) \<longrightarrow> parse_answer loads a ''int'' sql = PyInt 0)
   \<and> (length a \<le> int_max_str_digits \<longrightarrow> is_integer (parse_answer loads a ''int'' sql))"
proof -
  have a: "conversion_succeeds loads a fmt \<longrightarrow> matches_family fmt (parse_answer loads a fmt sql)"
    by (simp add: shape_iff)
  have g: "length a \<le> int_max_str_digits \<longrightarrow> is_integer (parse_answer loads a ''int'' sql)"
  proof
    assume "length a \<le> int_max_str_digits"
    then have "conversion_succeeds loads a ''int''"
      by (rule short_answer_converts)
    then have "matches_family ''int'' (parse_answer loads a ''int'' sql)"
      by (simp only: shape_iff)
    then show "is_integer (parse_answer loads a ''int'' sql)"
      by (simp add: matches_family_def)
  qed
  have t: "fmt \<noteq> ''int'' \<and> fmt \<noteq> ''float'' \<and> \<not> startswith fmt ''{'' \<and> \<not> startswith fmt ''list''
        \<longrightarrow> parse_answer loads a fmt sql = PyStr (clean_answer a)"
    using parse_answer_text by blast
  have b: "case search_run is_digit (clean_answer a) of
        None \<Rightarrow> parse_answer loads a ''int'' sql = PyInt 0
      | Some m \<Rightarrow> length m \<le> int_max_str_digits
                  \<longrightarrow> parse_answer loads a ''int'' sql = PyInt (int (digits_to_nat m))"
    by (rule parse_answer_int)
  have c: "case search_run is_digit_or_dot (clean_answer a) of
        None \<Rightarrow> parse_answer loads a ''float'' sql
                 = PyFloat (case truthy_rows sql of
                              [] \<Rightarrow> Fin 0
                            | r # rs \<Rightarrow> (case first_number r of None \<Rightarrow> Fin 0 | Some x \<Rightarrow> py_round2 x))
      | Some m \<Rightarrow> (\<forall>x. py_float m = Some x
                      \<longrightarrow> parse_answer loads a ''float'' sql = PyFloat (py_round2 x))"
    by (rule parse_answer_float)
  have d: "startswith fmt ''{'' \<longrightarrow>
        parse_answer loads a fmt sql
          = (case loads (clean_answer a) of
               Some v \<Rightarrow> v
             | None \<Rightarrow> PyDict (case truthy_rows sql of [] \<Rightarrow> [] | r # rs \<Rightarrow> r))
        \<and> matches_family fmt (parse_answer loads a fmt sql)
          = (case loads (clean_answer a) of None \<Rightarrow> True | Some v \<Rightarrow> is_object v)"
    using shape_object by blast
  have e: "startswith fmt ''list'' \<longrightarrow>
        parse_answer loads a fmt sql
          = (case loads (clean_answer a) of
               Some v \<Rightarrow> v
             | None \<Rightarrow> PyList (map PyDict (truthy_rows sql)))
        \<and> matches_family fmt (parse_answer loads a fmt sql)
          = (case loads (clean_answer a) of None \<Rightarrow> True | Some v \<Rightarrow> is_sequence v)"
    using shape_list by blast
  have f: "(\<forall>c\<in>set a. \<not> is_digit c) \<longrightarrow> parse_answer loads a ''int'' sql = PyInt 0"
    using no_digit_gives_zero by blast
  from a b c d e t f g show ?thesis
    by (intro conjI)
qed

theorem answer_shape_witness:
  "list_all (\<lambda>c. \<not> is_digit c) ''no idea''
   \<and> parse_answer loads_nothing ''no idea'' ''int'' None = PyInt 0
   \<and> length ''There were 42 orders'' \<le> int_max_str_digits
   \<and> is_integer (parse_answer loads_nothing ''There were 42 orders'' ''int'' None)
   \<and> parse_answer loads_nothing ''There were 42 orders'' ''int'' None = PyInt 42
   \<and> conversion_succeeds loads_nothing ''12.5'' ''float''
   \<and> matches_family ''float'' (parse_answer loads_nothing ''12.5'' ''float'' None)
   \<and> parse_answer loads_nothing ''about 12.5 units'' ''float'' None = PyFloat (Fin 12.5)
   \<and> startswith ''{category:str, quantity:int}'' ''{''
   \<and> parse_answer loads_small ''{}'' ''{category:str, quantity:int}'' None = PyDict []
   \<and> matches_family ''{category:str, quantity:int}''
        (parse_answer loads_small ''{}'' ''{category:str, quantity:int}'' None)
   \<and> parse_answer loads_nothing ''Beverages, 830'' ''{category:str, quantity:int}''
        (Some one_row_result) = PyDict [(''total'', PyInt 830)]
   \<and> parse_answer loads_42 ''42'' ''{category:str, quantity:int}'' None = PyInt 42
   \<and> startswith ''list[{product:str, revenue:float}]'' ''list''
   \<and> parse_answer loads_small ''[1, 2]'' ''list[{product:str, revenue:float}]'' None
       = PyList [PyInt 1, PyInt 2]
   \<and> matches_family ''list[{product:str, revenue:float}]''
        (parse_answer loads_small ''[1, 2]'' ''list[{product:str, revenue:float}]'' None)
   \<and> parse_answer loads_nothing ''see the rows'' ''list[{product:str, revenue:float}]''
        (Some one_row_result) = PyList [PyDict [(''total'', PyInt 830)]]
   \<and> parse_answer loads_nothing '' Beverages '' ''str'' None = PyStr ''Beverages''"
proof -
  have d: "list_all (\<lambda>c. \<not> is_digit c) ''no idea''"
    by code_simp
  then have d': "\<forall>c\<in>set ''no idea''. \<not> is_digit c"
    by (simp only: list_all_iff)
  have l: "length ''There were 42 orders'' \<le> int_max_str_digits"
    by (simp add: int_max_str_digits_def)
  have r42: "search_run is_digit (clean_answer ''There were 42 orders'') = Some ''42''"
    by code_simp
  have v42: "PyInt (int (digits_to_nat ''42'')) = PyInt 42" and l42: "length ''42'' \<le> int_max_str_digits"
    by code_simp+
  have f: "conversion_succeeds loads_nothing ''12.5'' ''float''"
    by code_simp
  have rf: "search_run is_digit_or_dot (clean_answer ''about 12.5 units'') = Some ''12.5''"
    by code_simp
  have vf: "py_float ''12.5'' = Some (Fin 12.5)"
    by code_simp
  have rd: "py_round2 (Fin 12.5) = Fin 12.5"
    by code_simp
  have so: "startswith ''{category:str, quantity:int}'' ''{''"
    by simp
  have sl: "startswith ''list[{product:str, revenue:float}]'' ''list''"
    by simp
  have j1: "loads_small (clean_answer ''{}'') = Some (PyDict [])"
    by code_simp
  have j2: "loads_nothing (clean_answer ''Beverages, 830'') = None"
    by (simp add: loads_nothing_def)
  have j3: "loads_42 (clean_answer ''42'') = Some (PyInt 42)"
    by code_simp
  have j4: "loads_small (clean_answer ''[1, 2]'') = Some (PyList [PyInt 1, PyInt 2])"
    by code_simp
  have j5: "loads_nothing (clean_answer ''see the rows'') = None"
    by (simp add: loads_nothing_def)
  have rows: "truthy_rows (Some one_row_result) = [[(''total'', PyInt 830)]]"
    by code_simp
  have o1: "is_object (PyDict [])" and o2: "is_sequence (PyList [PyInt 1, PyInt 2])"
    by (simp_all add: is_object_def is_sequence_def)
  note int0 = answer_shape [of loads_nothing "''no idea''" "''int''" None]
  note int42 = answer_shape [of loads_nothing "''There were 42 orders''" "''int''" None]
  note fl = answer_shape [of loads_nothing "''12.5''" "''float''" None]
  note fl2 = answer_shape [of loads_nothing "''about 12.5 units''" "''float''" None]
  note ob1 = answer_shape [of loads_small "''{}''" "''{category:str, quantity:int}''" None]
  note ob2 = answer_shape [of loads_nothing "''Beverages, 830''" "''{category:str, quantity:int}''"
      "Some one_row_result"]
  note ob3 = answer_shape [of loads_42 "''42''" "''{category:str, quantity:int}''" None]
  note li1 = answer_shape [of loads_small "''[1, 2]''" "''list[{product:str, revenue:float}]''" None]
  note li2 = answer_shape [of loads_nothing "''see the rows''"
      "''list[{product:str, revenue:float}]''" "Some one_row_result"]
  from int0 d' have w1: "parse_answer loads_nothing ''no idea'' ''int'' None = PyInt 0"
    by blast
  from int42 l have w2: "is_integer (parse_answer loads_nothing ''There were 42 orders'' ''int'' None)"
    by blast
  from int42 [THEN conjunct2, THEN conjunct1] r42 l42 v42
  have w3: "parse_answer loads_nothing ''There were 42 orders'' ''int'' None = PyInt 42"
    by simp
  from fl f have w4: "matches_family ''float'' (parse_answer loads_nothing ''12.5'' ''float'' None)"
    by blast
  from fl2 [THEN conjunct2, THEN conjunct2, THEN conjunct1] rf vf rd
  have w5: "parse_answer loads_nothing ''about 12.5 units'' ''float'' None = PyFloat (Fin 12.5)"
    by simp
  note empty_object = ob1 [THEN conjunct2, THEN conjunct2, THEN conjunct2, THEN conjunct1,
      rule_format, OF so]
  from empty_object [THEN conjunct1] j1
  have w6: "parse_answer loads_small ''{}'' ''{category:str, quantity:int}'' None = PyDict []"
    by simp
  from empty_object [THEN conjunct2] j1 o1
  have w7: "matches_family ''{category:str, quantity:int}''
        (parse_answer loads_small ''{}'' ''{category:str, quantity:int}'' None)"
    by simp
  from ob2 [THEN conjunct2, THEN conjunct2, THEN conjunct2, THEN conjunct1, rule_format, OF so] j2 rows
  have w8: "parse_answer loads_nothing ''Beverages, 830'' ''{category:str, quantity:int}''
        (Some one_row_result) = PyDict [(''total'', PyInt 830)]"
    by simp
  from ob3 [THEN conjunct2, THEN conjunct2, THEN conjunct2, THEN conjunct1, rule_format, OF so] j3
  have w9: "parse_answer loads_42 ''42'' ''{category:str, quantity:int}'' None = PyInt 42"
    by simp
  note two_numbers = li1 [THEN conjunct2, THEN conjunct2, THEN conjunct2, THEN conjunct2,
      THEN conjunct1, rule_format, OF sl]
  from two_numbers [THEN conjunct1] j4
  have w10: "parse_answer loads_small ''[1, 2]'' ''list[{product:str, revenue:float}]'' None
       = PyList [PyInt 1, PyInt 2]"
    by simp
  from two_numbers [THEN conjunct2] j4 o2
  have w11: "matches_family ''list[{product:str, revenue:float}]''
        (parse_answer loads_small ''[1, 2]'' ''list[{product:str, revenue:float}]'' None)"
    by simp
  from li2 [THEN conjunct2, THEN conjunct2, THEN conjunct2, THEN conjunct2, THEN conjunct1,
      rule_format, OF sl] j5 rows
  have w12: "parse_answer loads_nothing ''see the rows'' ''list[{product:str, revenue:float}]''
        (Some one_row_result) = PyList [PyDict [(''total'', PyInt 830)]]"
    by simp
  have t1: "''str'' \<noteq> ''int'' \<and> ''str'' \<noteq> ''float'' \<and> \<not> startswith ''str'' ''{''
        \<and> \<not> startswith ''str'' ''list''"
    by simp
  have t2: "clean_answer '' Beverages '' = ''Beverages''"
    by code_simp
  from answer_shape [of loads_nothing "'' Beverages ''" "''str''" None, THEN conjunct2,
      THEN conjunct2, THEN conjunct2, THEN conjunct2, THEN conjunct2, THEN conjunct1,
      rule_format, OF t1] t2
  have w13: "parse_answer loads_nothing '' Beverages '' ''str'' None = PyStr ''Beverages''"
    by simp
  from d w1 l w2 w3 f w4 w5 so w6 w7 w8 w9 sl w10 w11 w12 w13 show ?thesis
    by blast
qed

text \<open>
  The claim as the specification words it fails for each family. With the hint
  \<open>float\<close>, the first run of digits and dots in \<open>Approx. 12.5\<close> is a lone dot, which
  \<open>float\<close> refuses, and the answer is a text. With an object hint, the text \<open>42\<close> is
  valid JSON and the integer is returned as it is. With the hint \<open>int\<close>, a run of 4301
  digits is refused by \<open>int\<close>, and the answer is a text.
\<close>

lemma sub_fences_no_backquote:
  assumes "CHR 0x60 \<notin> set s"
  shows "sub_fences tags bol 0 s = s"
  using assms
proof (induction s arbitrary: bol)
  case Nil
  then show ?case by simp
next
  case (Cons c cs)
  then have "c \<noteq> CHR 0x60"
    by auto
  then have "fence_at tags bol (c # cs) = None"
    by (simp add: fence_at_def fence_def)
  with Cons show ?case by simp
qed

lemma long_digit_run:
  "parse_answer loads (replicate 4301 (CHR ''7'')) ''int'' sql = PyStr (replicate 4301 (CHR ''7''))"
proof -
  let ?s = "replicate 4301 (CHR ''7'')"
  have sp: "\<not> is_space (CHR ''7'')" and dg: "is_digit (CHR ''7'')"
    by (simp_all add: is_space_def is_digit_def)
  have "py_strip ?s = ?s"
    using sp by (simp add: py_strip_def dropWhile_replicate)
  moreover have "sub_fences [''json'', ''sql'', []] True 0 ?s = ?s"
    by (rule sub_fences_no_backquote) simp
  ultimately have c: "clean_answer ?s = ?s"
    by (simp add: clean_answer_def)
  have "dropWhile (\<lambda>c. \<not> is_digit c) ?s = ?s"
    using dg by (simp add: dropWhile_replicate)
  moreover have "takeWhile is_digit ?s = ?s"
    using dg by (simp add: takeWhile_replicate)
  moreover have "?s = CHR ''7'' # replicate 4300 (CHR ''7'')"
    by (simp add: replicate_Suc [symmetric] del: replicate_Suc)
  ultimately have r: "search_run is_digit ?s = Some ?s"
    by (simp add: search_run_def)
  have "py_int ?s = Inl ValueError"
    by (simp add: py_int_def int_max_str_digits_def)
  with c r show ?thesis
    by (simp add: parse_answer_def except_fallback_int)
qed

theorem answer_shape_counterexample:
  "parse_answer loads_nothing ''Approx. 12.5'' ''float'' None = PyStr ''Approx. 12.5''
   \<and> matches_family ''float'' (parse_answer loads_nothing ''Approx. 12.5'' ''float'' None) = False
   \<and> parse_answer loads_42 ''42'' ''{category:str, quantity:int}'' None = PyInt 42
   \<and> matches_family ''{category:str, quantity:int}''
        (parse_answer loads_42 ''42'' ''{category:str, quantity:int}'' None) = False
   \<and> parse_answer loads_nothing (replicate 4301 (CHR ''7'')) ''int'' None
       = PyStr (replicate 4301 (CHR ''7''))
   \<and> matches_family ''int''
        (parse_answer loads_nothing (replicate 4301 (CHR ''7'')) ''int'' None) = False"
proof -
  have a: "parse_answer loads_nothing ''Approx. 12.5'' ''float'' None = PyStr ''Approx. 12.5''"
    by code_simp
  have b: "parse_answer loads_42 ''42'' ''{category:str, quantity:int}'' None = PyInt 42"
    by code_simp
  have a': "matches_family ''float'' (PyStr ''Approx. 12.5'') = False"
    by (simp add: matches_family_def is_number_def)
  have b': "matches_family ''{category:str, quantity:int}'' (PyInt 42) = False"
    by (simp add: matches_family_def is_object_def)
  have c': "matches_family ''int'' (PyStr (replicate 4301 (CHR ''7''))) = False"
    by (simp add: matches_family_def is_integer_def)
  from a b a' b' c' long_digit_run [of loads_nothing None] show ?thesis
    by simp
qed

section \<open>Properties of the citations\<close>

lemma clean_table_error: "clean_table g = Inl e \<Longrightarrow> e = IndexError"
  by (auto simp: clean_table_def split: list.splits)

lemma add_tables_eq:
  "add_tables T ms =
     (if \<exists>g\<in>set ms. clean_table g = Inl IndexError then Inl IndexError
      else Inr (T \<union> names_of ms))"
proof (induction ms arbitrary: T)
  case Nil
  then show ?case by (simp add: names_of_def)
next
  case (Cons g gs)
  show ?case
  proof (cases "clean_table g")
    case (Inl e)
    then have "clean_table g = Inl IndexError"
      using clean_table_error by blast
    then show ?thesis by simp
  next
    case (Inr t)
    have split: "names_of (g # gs) =
        (if t \<noteq> [] \<and> \<not> is_sql_keyword t then insert t (names_of gs) else names_of gs)"
      using Inr by (auto simp: names_of_def)
    show ?thesis
      using Inr Cons.IH split by auto
  qed
qed

lemma add_tables_set:
  assumes "set ms' = set ms"
  shows "add_tables T ms' = add_tables T ms"
proof -
  from assms have "names_of ms' = names_of ms"
    by (simp add: names_of_def)
  with assms show ?thesis
    by (simp add: add_tables_eq)
qed

lemma add_tables_finite:
  "add_tables T ms = Inr T' \<Longrightarrow> finite T \<Longrightarrow> finite T'"
proof (induction ms arbitrary: T)
  case Nil
  then show ?case by simp
next
  case (Cons g gs)
  then show ?case
    by (cases "clean_table g") (auto split: if_splits)
qed

lemma collect_citations_eq:
  "collect_citations state =
     (case add_tables {} (tables_scan None 0 (sql_query state)) of
        Inl e \<Rightarrow> Inl e
      | Inr T \<Rightarrow> Inr (T \<union> chunk_id ` set (retrieved_chunks state)))"
proof (cases "sql_query state = []")
  case True
  then show ?thesis by (simp add: collect_citations_def)
next
  case False
  show ?thesis
  proof (cases "add_tables {} (tables_scan None 0 (sql_query state))")
    case (Inl e)
    with False show ?thesis
      by (simp add: collect_citations_def extract_tables_from_sql_def)
  next
    case (Inr T)
    then have "finite T"
      using add_tables_finite by blast
    with Inr False show ?thesis
      by (simp add: collect_citations_def extract_tables_from_sql_def)
  qed
qed

text \<open>
  C8. Collecting does not read the citations of the state, so collecting again from
  the state that holds the result gives the same result. The result is the same for
  any order of the retrieved chunks, and the same when the query makes the same table
  references more than once or in another order. It is the set of the tables of the
  query together with the ids of the chunks.
\<close>

theorem citations_idempotent_order_independent:
  "collect_citations (state\<lparr>citations := cs\<rparr>) = collect_citations state
   \<and> (mset (retrieved_chunks state') = mset (retrieved_chunks state)
        \<and> sql_query state' = sql_query state
      \<longrightarrow> collect_citations state' = collect_citations state)
   \<and> (set (tables_scan None 0 (sql_query state')) = set (tables_scan None 0 (sql_query state))
        \<and> retrieved_chunks state' = retrieved_chunks state
      \<longrightarrow> collect_citations state' = collect_citations state)
   \<and> (\<forall>tables. extract_tables_from_sql (sql_query state) = Inr tables
      \<longrightarrow> collect_citations state
          = Inr (set tables \<union> chunk_id ` set (retrieved_chunks state)))"
proof -
  have a: "collect_citations (state\<lparr>citations := cs\<rparr>) = collect_citations state"
  proof -
    have "sql_query (state\<lparr>citations := cs\<rparr>) = sql_query state"
      and "retrieved_chunks (state\<lparr>citations := cs\<rparr>) = retrieved_chunks state"
      by simp_all
    then show ?thesis
      by (simp only: collect_citations_def)
  qed
  have b: "mset (retrieved_chunks state') = mset (retrieved_chunks state)
        \<and> sql_query state' = sql_query state
      \<longrightarrow> collect_citations state' = collect_citations state"
  proof
    assume h: "mset (retrieved_chunks state') = mset (retrieved_chunks state)
        \<and> sql_query state' = sql_query state"
    then have "set (retrieved_chunks state') = set (retrieved_chunks state)"
      using mset_eq_setD by blast
    with h show "collect_citations state' = collect_citations state"
      by (simp add: collect_citations_eq cong: sum.case_cong)
  qed
  have c: "set (tables_scan None 0 (sql_query state')) = set (tables_scan None 0 (sql_query state))
        \<and> retrieved_chunks state' = retrieved_chunks state
      \<longrightarrow> collect_citations state' = collect_citations state"
  proof
    assume h: "set (tables_scan None 0 (sql_query state')) = set (tables_scan None 0 (sql_query state))
        \<and> retrieved_chunks state' = retrieved_chunks state"
    then have "add_tables {} (tables_scan None 0 (sql_query state'))
        = add_tables {} (tables_scan None 0 (sql_query state))"
      using add_tables_set by blast
    with h show "collect_citations state' = collect_citations state"
      by (simp add: collect_citations_eq cong: sum.case_cong)
  qed
  have d: "\<forall>tables. extract_tables_from_sql (sql_query state) = Inr tables
      \<longrightarrow> collect_citations state
          = Inr (set tables \<union> chunk_id ` set (retrieved_chunks state))"
    by (auto simp: collect_citations_def extract_tables_from_sql_def split: if_splits)
  from a b c d show ?thesis by blast
qed

theorem citations_idempotent_order_independent_witness:
  "mset (retrieved_chunks (cited_state'\<lparr>sql_query := sql_query cited_state\<rparr>))
     = mset (retrieved_chunks cited_state)
   \<and> collect_citations (cited_state'\<lparr>sql_query := sql_query cited_state\<rparr>)
     = collect_citations cited_state
   \<and> set (tables_scan None 0 (sql_query (cited_state'\<lparr>retrieved_chunks := retrieved_chunks cited_state\<rparr>)))
     = set (tables_scan None 0 (sql_query cited_state))
   \<and> collect_citations (cited_state'\<lparr>retrieved_chunks := retrieved_chunks cited_state\<rparr>)
     = collect_citations cited_state
   \<and> extract_tables_from_sql (sql_query cited_state) = Inr [''Customers'', ''Orders'']
   \<and> collect_citations cited_state
     = Inr {''Customers'', ''Orders'', ''marketing_calendar.md::chunk1'',
            ''marketing_calendar.md::chunk2''}"
proof -
  have p: "mset (retrieved_chunks (cited_state'\<lparr>sql_query := sql_query cited_state\<rparr>))
     = mset (retrieved_chunks cited_state)"
    by (simp add: cited_state_def cited_state'_def add.commute)
  have q: "sql_query (cited_state'\<lparr>sql_query := sql_query cited_state\<rparr>) = sql_query cited_state"
    by simp
  have s: "set (tables_scan None 0 (sql_query (cited_state'\<lparr>retrieved_chunks := retrieved_chunks cited_state\<rparr>)))
     = set (tables_scan None 0 (sql_query cited_state))"
    by code_simp
  have r: "retrieved_chunks (cited_state'\<lparr>retrieved_chunks := retrieved_chunks cited_state\<rparr>)
     = retrieved_chunks cited_state"
    by simp
  have t: "extract_tables_from_sql (sql_query cited_state) = Inr [''Customers'', ''Orders'']"
    by code_simp
  have i: "set [''Customers'', ''Orders''] \<union> chunk_id ` set (retrieved_chunks cited_state)
     = {''Customers'', ''Orders'', ''marketing_calendar.md::chunk1'',
        ''marketing_calendar.md::chunk2''}"
    by (simp add: cited_state_def summer_chunk_def winter_chunk_def insert_commute)
  from p q s r t i
    citations_idempotent_order_independent
      [where state = cited_state and cs = "{}"
         and state' = "cited_state'\<lparr>sql_query := sql_query cited_state\<rparr>"]
    citations_idempotent_order_independent
      [where state = cited_state and cs = "{}"
         and state' = "cited_state'\<lparr>retrieved_chunks := retrieved_chunks cited_state\<rparr>"]
  show ?thesis by simp
qed



section \<open>Properties of the retriever\<close>

lemma argsort_set: "set (argsort tie xs) = {0..<length xs}"
  by (simp add: argsort_def)


lemma argsort_distinct: "distinct (argsort tie xs)"
  by (simp add: argsort_def)


lemma slice_from_set: "set (slice_from j xs) \<subseteq> set xs"
  by (auto simp: slice_from_def dest: in_set_dropD)


lemma slice_from_distinct: "distinct xs \<Longrightarrow> distinct (slice_from j xs)"
  by (simp add: slice_from_def)


text \<open>The chunk at position \<open>i\<close> with the score at that position.\<close>

lemma scored_chunks_total:
  assumes "\<forall>i\<in>set idxs. i < length stored \<and> i < length scores"
  shows "scored_chunks stored scores idxs
         = Inr (map (\<lambda>i. \<lparr>chunk_id = chunk_id (stored ! i), content = content (stored ! i),
                          source = source (stored ! i), score = scores ! i\<rparr>) idxs)"
  using assms by (induction idxs) (simp_all add: get_item_def)

lemma top_indices_range:
  assumes "i \<in> set (rev (slice_from j (argsort tie (map f [0..<n]))))"
  shows "i < n"
proof -
  from assms have "i \<in> set (argsort tie (map f [0..<n]))"
    using slice_from_set by fastforce
  then show ?thesis
    by (simp add: argsort_set)
qed

lemma search_total:
  "search lib r query top_k
   = Inr (map (\<lambda>i. \<lparr>chunk_id = chunk_id (retriever_chunks r ! i),
                     content = content (retriever_chunks r ! i),
                     source = source (retriever_chunks r ! i),
                     score = similarity lib (map content (retriever_chunks r)) query i\<rparr>)
            (rev (slice_from (- top_k)
               (argsort (tie_break lib)
                  (map (similarity lib (map content (retriever_chunks r)) query)
                     [0..<length (retriever_chunks r)])))))"
proof -
  let ?n = "length (retriever_chunks r)"
  let ?f = "similarity lib (map content (retriever_chunks r)) query"
  let ?idxs = "rev (slice_from (- top_k) (argsort (tie_break lib) (map ?f [0..<?n])))"
  have rng: "\<forall>i\<in>set ?idxs. i < ?n \<and> i < length (map ?f [0..<?n])"
    using top_indices_range [of _ "- top_k" "tie_break lib" ?f ?n] by simp
  have "scored_chunks (retriever_chunks r) (map ?f [0..<?n]) ?idxs
        = Inr (map (\<lambda>i. \<lparr>chunk_id = chunk_id (retriever_chunks r ! i),
                          content = content (retriever_chunks r ! i),
                          source = source (retriever_chunks r ! i),
                          score = map ?f [0..<?n] ! i\<rparr>) ?idxs)"
    by (rule scored_chunks_total [OF rng])
  also have "map (\<lambda>i. \<lparr>chunk_id = chunk_id (retriever_chunks r ! i),
                          content = content (retriever_chunks r ! i),
                          source = source (retriever_chunks r ! i),
                          score = map ?f [0..<?n] ! i\<rparr>) ?idxs
           = map (\<lambda>i. \<lparr>chunk_id = chunk_id (retriever_chunks r ! i),
                          content = content (retriever_chunks r ! i),
                          source = source (retriever_chunks r ! i),
                          score = ?f i\<rparr>) ?idxs"
    using rng by (intro map_cong) simp_all
  finally show ?thesis
    by (simp add: search_def Let_def)
qed

lemma search_returns: "\<exists>found. search lib r query top_k = Inr found"
  by (simp add: search_total)

lemma retriever_node_returns: "\<exists>state' made. retriever_node c state = (Inr state', made)"
proof (cases "route state \<in> set [''rag'', ''hybrid'']")
  case True
  obtain found where "search (vectors c) (retriever c) (question state) 3 = Inr found"
    using search_returns by blast
  with True show ?thesis
    by (simp add: retriever_node_def)
next
  case False
  then show ?thesis
    by (simp add: retriever_node_def)
qed


lemma load_files_returns:
  assumes "\<forall>f\<in>set names. endswith f ''.md'' \<longrightarrow> (\<exists>t. read_text fs (path_join docs_dir f) = Inr t)"
  shows "\<exists>out. load_files fs docs_dir names found = Inr out"
  using assms
proof (induction names arbitrary: found)
  case Nil
  then show ?case by simp
next
  case (Cons g names)
  then show ?case
    by (cases "endswith g ''.md''") (auto split: sum.splits)
qed




section \<open>Properties of the graph\<close>

lemma drive_END: "drive c k END state = \<lparr>path = [], calls = [], outcome = Inr state\<rparr>"
  by (cases k) (simp_all add: drive.simps(2))

lemma drive_exhausted:
  "n \<noteq> END \<Longrightarrow>
     drive c 0 n state = \<lparr>path = [], calls = [], outcome = Inl GraphRecursionError\<rparr>"
  by simp

lemma drive_raise:
  assumes "n \<noteq> END" and "run_node c n state = (Inl e, made)"
  shows "drive c (Suc k) n state = \<lparr>path = [(n, state)], calls = made, outcome = Inl e\<rparr>"
  using assms by (simp add: drive.simps(2))

lemma drive_step:
  assumes "n \<noteq> END" and "run_node c n state = (Inr state', made)"
  shows "drive c (Suc k) n state =
           \<lparr>path = (n, state) # path (drive c k (next_node n state') state'),
            calls = made @ calls (drive c k (next_node n state') state'),
            outcome = outcome (drive c k (next_node n state') state')\<rparr>"
  using assms by (simp add: drive.simps(2) Let_def)

text \<open>The four ways in which a run from a node goes on.\<close>

lemma drive_cases:
  obtains (finished) "n = END"
  | (exhausted) "n \<noteq> END" and "k = 0"
  | (raised) e made k' where "n \<noteq> END" and "k = Suc k'" and "run_node c n state = (Inl e, made)"
  | (stepped) state' made k' where "n \<noteq> END" and "k = Suc k'"
      and "run_node c n state = (Inr state', made)"
proof (cases "n = END")
  case True
  then show ?thesis by (rule finished)
next
  case False
  show ?thesis
  proof (cases k)
    case 0
    with False show ?thesis by (rule exhausted)
  next
    case (Suc k')
    obtain r made where rm: "run_node c n state = (r, made)"
      by (cases "run_node c n state")
    show ?thesis
    proof (cases r)
      case (Inl e)
      with rm have "run_node c n state = (Inl e, made)"
        by simp
      with False Suc show ?thesis by (rule raised)
    next
      case (Inr state')
      with rm have "run_node c n state = (Inr state', made)"
        by simp
      with False Suc show ?thesis by (rule stepped)
    qed
  qed
qed

text \<open>
  An invariant of the nodes and a property of the calls that every step keeps hold
  along the whole path, for all calls, and in the final state.
\<close>

lemma drive_invariant:
  assumes step: "\<And>n state state' made.
      I n state \<Longrightarrow> n \<noteq> END \<Longrightarrow> run_node c n state = (Inr state', made)
      \<Longrightarrow> I (next_node n state') state'"
    and made: "\<And>n state r made.
      I n state \<Longrightarrow> n \<noteq> END \<Longrightarrow> run_node c n state = (r, made) \<Longrightarrow> list_all P made"
    and start: "I n state"
  shows "list_all (\<lambda>(m, s). I m s) (path (drive c k n state))
         \<and> list_all P (calls (drive c k n state))
         \<and> (case outcome (drive c k n state) of Inl e \<Rightarrow> True | Inr fin \<Rightarrow> I END fin)"
  using start
proof (induction k arbitrary: n state)
  case 0
  then show ?case by (cases "n = END") simp_all
next
  case (Suc k)
  note here = Suc.prems
  show ?case
  proof (cases rule: drive_cases [where n = n and k = "Suc k" and c = c and state = state])
    case finished
    with here show ?thesis by (simp add: drive_END)
  next
    case exhausted
    then show ?thesis by simp
  next
    case (raised e made' k')
    from made [OF here raised(1,3)] here raised show ?thesis
      by (simp add: drive_raise)
  next
    case (stepped state' made' k')
    from step [OF here stepped(1,3)] have "I (next_node n state') state'" .
    from Suc.IH [OF this] made [OF here stepped(1,3)] here show ?thesis
      by (simp add: drive_step [OF stepped(1,3)])
  qed
qed

lemma path_head:
  "n \<noteq> END \<Longrightarrow> \<exists>p. path (drive c (Suc k) n state) = (n, state) # p"
  by (cases rule: drive_cases [where n = n and k = "Suc k" and c = c and state = state]) (auto simp: drive_raise drive_step)

lemma run_node_counter:
  assumes "run_node c n state = (Inr state', made)"
  shows "repair_count state' = (if n = Repair then repair_count state + 1 else repair_count state)"
    and "max_repairs state' = max_repairs state"
  using assms
  by (cases n;
      auto simp: router_node_def retriever_node_def planner_node_def nl2sql_node_def
        executor_node_def repair_node_def synthesizer_node_def Let_def
        split: prod.splits sum.splits if_splits)+

lemma next_node_Repair:
  "next_node n state = Repair \<Longrightarrow>
     n = Executor \<and> truthy (sql_error state) \<and> repair_count state < max_repairs state"
  by (cases n) (auto simp: should_repair_def route_after_router_def split: if_splits)

lemma counter_steps_drive: "counter_steps (path (drive c k n state))"
proof (induction k arbitrary: n state)
  case 0
  then show ?case by (cases "n = END") simp_all
next
  case (Suc k)
  show ?case
  proof (cases rule: drive_cases [where n = n and k = "Suc k" and c = c and state = state])
    case finished
    then show ?thesis by (simp add: drive_END)
  next
    case exhausted
    then show ?thesis by simp
  next
    case (raised e made k')
    then show ?thesis by (simp add: drive_raise)
  next
    case (stepped state' made k')
    note r = stepped(3) and False = stepped(1)
    let ?n' = "next_node n state'"
    have ih: "counter_steps (path (drive c k ?n' state'))"
      by (rule Suc.IH)
    show ?thesis
    proof (cases "path (drive c k ?n' state')")
      case Nil
      then show ?thesis
        by (simp add: drive_step [OF False r])
    next
      case (Cons x p)
      have "?n' \<noteq> END"
        using Cons by (auto simp: drive_END)
      have "k \<noteq> 0"
      proof
        assume "k = 0"
        with Cons \<open>?n' \<noteq> END\<close> show False
          by simp
      qed
      then obtain j where "k = Suc j"
        by (cases k) simp_all
      with path_head [OF \<open>?n' \<noteq> END\<close>, of c j state'] Cons
      have x: "x = (?n', state')"
        by simp
      have "?n' = Repair \<Longrightarrow> n = Executor"
        using next_node_Repair by blast
      with ih Cons x run_node_counter(1) [OF r] show ?thesis
        by (simp add: drive_step [OF False r])
    qed
  qed
qed

lemma made_generations:
  assumes "run_node c n state = (r, made)"
  shows "length (filter is_generate made) = (if n = NL2SQL \<and> made \<noteq> [] then 1 else 0)"
  using assms
  by (cases n;
      auto simp: router_node_def retriever_node_def planner_node_def nl2sql_node_def
        executor_node_def repair_node_def synthesizer_node_def Let_def is_generate_def
        split: prod.splits sum.splits if_splits)+

lemma repairs_left_step:
  assumes "run_node c n state = (Inr state', made)"
  shows "repairs_left state' =
           (if n = Repair then repairs_left state - 1 else repairs_left state)"
  using run_node_counter [OF assms] by (auto simp: repairs_left_def)

lemma repairs_left_positive:
  "repair_count state < max_repairs state \<Longrightarrow> 0 < repairs_left state"
  by (simp add: repairs_left_def)

lemma steps_decrease:
  assumes "n \<noteq> END" and "run_node c n state = (Inr state', made)"
  shows "steps_bound (next_node n state') state' < steps_bound n state"
proof (cases n)
  case Executor
  show ?thesis
  proof (cases "should_repair state' = Repair")
    case True
    then have "0 < repairs_left state'"
      using repairs_left_positive by (auto simp: should_repair_def split: if_splits)
    with True Executor repairs_left_step [OF assms(2)] show ?thesis
      by simp
  next
    case False
    then have "should_repair state' = Synthesizer"
      by (simp add: should_repair_def split: if_splits)
    with Executor show ?thesis by simp
  qed
next
  case Router
  with repairs_left_step [OF assms(2)] show ?thesis
    by (simp add: route_after_router_def)
qed (use assms repairs_left_step [OF assms(2)] in auto)

text \<open>A run enters no more nodes than its steps allow, and no more than the loop allows.\<close>

lemma path_length_fuel: "length (path (drive c k n state)) \<le> k"
proof (induction k arbitrary: n state)
  case 0
  then show ?case by (cases "n = END") simp_all
next
  case (Suc k)
  show ?case
  proof (cases rule: drive_cases [where n = n and k = "Suc k" and c = c and state = state])
    case (stepped state' made k')
    from Suc.IH [of "next_node n state'" state'] show ?thesis
      by (simp add: drive_step [OF stepped(1,3)])
  qed (simp_all add: drive_END drive_raise)
qed

lemma path_length: "length (path (drive c k n state)) \<le> steps_bound n state"
proof (induction k arbitrary: n state)
  case 0
  then show ?case by (cases "n = END") simp_all
next
  case (Suc k)
  show ?case
  proof (cases rule: drive_cases [where n = n and k = "Suc k" and c = c and state = state])
    case finished
    then show ?thesis by (simp add: drive_END)
  next
    case exhausted
    then show ?thesis by simp
  next
    case (raised e made k')
    then show ?thesis
      by (cases n) (simp_all add: drive_raise)
  next
    case (stepped state' made k')
    from Suc.IH [of "next_node n state'" state'] steps_decrease [OF stepped(1,3)]
    show ?thesis
      by (simp add: drive_step [OF stepped(1,3)])
  qed
qed

lemma generations_decrease:
  assumes "n \<noteq> END" and "run_node c n state = (Inr state', made)"
  shows "length (filter is_generate made) + generations_bound (next_node n state') state'
         \<le> generations_bound n state"
proof (cases n)
  case Executor
  show ?thesis
  proof (cases "should_repair state' = Repair")
    case True
    then have "0 < repairs_left state'"
      using repairs_left_positive by (auto simp: should_repair_def split: if_splits)
    with True Executor repairs_left_step [OF assms(2)] made_generations [OF assms(2)]
    show ?thesis by simp
  next
    case False
    then have "should_repair state' = Synthesizer"
      by (simp add: should_repair_def split: if_splits)
    with Executor made_generations [OF assms(2)] show ?thesis by simp
  qed
next
  case Router
  with repairs_left_step [OF assms(2)] made_generations [OF assms(2)] show ?thesis
    by (simp add: route_after_router_def)
qed (use assms repairs_left_step [OF assms(2)] made_generations [OF assms(2)] in auto)

lemma run_node_raises:
  assumes "run_node c n state = (Inl e, made)"
  shows "n = Synthesizer \<and> (e = IndexError \<or> e = TypeError)"
proof (cases n)
  case Retriever
  with assms retriever_node_returns [of c state] show ?thesis
    by auto
next
  case Synthesizer
  with assms have "e = TypeError \<or> collect_citations state = Inl e"
    by (auto simp: synthesizer_node_def Let_def split: sum.splits if_splits)
  then have "e = TypeError \<or> e = IndexError"
    by (auto simp: collect_citations_eq add_tables_eq split: if_splits sum.splits)
  with Synthesizer show ?thesis by auto
qed (use assms in \<open>auto split: prod.splits\<close>)

lemma generations_bounded:
  "length (filter is_generate (calls (drive c k n state))) \<le> generations_bound n state"
proof (induction k arbitrary: n state)
  case 0
  then show ?case by (cases "n = END") simp_all
next
  case (Suc k)
  show ?case
  proof (cases rule: drive_cases [where n = n and k = "Suc k" and c = c and state = state])
    case finished
    then show ?thesis by (simp add: drive_END)
  next
    case exhausted
    then show ?thesis by simp
  next
    case (raised e made k')
    from run_node_raises [OF raised(3)] made_generations [OF raised(3)] raised show ?thesis
      by (simp add: drive_raise)
  next
    case (stepped state' made k')
    from Suc.IH [of "next_node n state'" state'] generations_decrease [OF stepped(1,3)]
    show ?thesis
      by (simp add: drive_step [OF stepped(1,3)])
  qed
qed

lemma next_node_END: "next_node n state = END \<Longrightarrow> n = Synthesizer \<or> n = END"
  by (cases n) (auto simp: should_repair_def route_after_router_def split: if_splits)

text \<open>
  A run enters the synthesizer or is stopped by the limit, and not both; a run that
  is stopped has used up its steps, and a run with enough steps is not stopped.
\<close>

lemma reaches_synthesizer:
  "n \<noteq> END \<Longrightarrow>
     Synthesizer \<in> fst ` set (path (drive c k n state))
     \<or> outcome (drive c k n state) = Inl GraphRecursionError"
proof (induction k arbitrary: n state)
  case 0
  then show ?case by simp
next
  case (Suc k)
  show ?case
  proof (cases rule: drive_cases [where n = n and k = "Suc k" and c = c and state = state])
    case finished
    with Suc.prems show ?thesis by simp
  next
    case exhausted
    then show ?thesis by simp
  next
    case (raised e made k')
    with run_node_raises [OF raised(3)] show ?thesis
      by (simp add: drive_raise)
  next
    case (stepped state' made k')
    show ?thesis
    proof (cases "n = Synthesizer")
      case True
      have "path (drive c (Suc k) n state)
            = (n, state) # path (drive c k (next_node n state') state')"
        by (simp add: drive_step [OF stepped(1,3)])
      with True show ?thesis
        by simp
    next
      case False
      with stepped(1) have "next_node n state' \<noteq> END"
        using next_node_END by blast
      from Suc.IH [OF this] show ?thesis
        by (auto simp: drive_step [OF stepped(1,3)])
    qed
  qed
qed

lemma stopped_before_synthesizer:
  assumes "outcome (drive c k n state) = Inl GraphRecursionError"
  shows "Synthesizer \<notin> fst ` set (path (drive c k n state))
         \<and> length (path (drive c k n state)) = k"
  using assms
proof (induction k arbitrary: n state)
  case 0
  then show ?case by (cases "n = END") simp_all
next
  case (Suc k)
  show ?case
  proof (cases rule: drive_cases [where n = n and k = "Suc k" and c = c and state = state])
    case finished
    with Suc.prems show ?thesis by (simp add: drive_END)
  next
    case exhausted
    then show ?thesis by simp
  next
    case (raised e made k')
    with run_node_raises [OF raised(3)] Suc.prems show ?thesis
      by (auto simp: drive_raise)
  next
    case (stepped state' made k')
    from Suc.prems have stop: "outcome (drive c k (next_node n state') state') = Inl GraphRecursionError"
      by (simp add: drive_step [OF stepped(1,3)])
    have "n \<noteq> Synthesizer"
    proof
      assume "n = Synthesizer"
      with stop show False
        by (simp add: drive_END)
    qed
    with Suc.IH [OF stop] show ?thesis
      by (simp add: drive_step [OF stepped(1,3)])
  qed
qed

lemma enough_steps:
  assumes "steps_bound n state \<le> k"
  shows "outcome (drive c k n state) \<noteq> Inl GraphRecursionError"
  using assms
proof (induction k arbitrary: n state)
  case 0
  then show ?case by (cases n) (simp_all split: if_splits)
next
  case (Suc k)
  show ?case
  proof (cases rule: drive_cases [where n = n and k = "Suc k" and c = c and state = state])
    case finished
    then show ?thesis by (simp add: drive_END)
  next
    case exhausted
    then show ?thesis by simp
  next
    case (raised e made k')
    with run_node_raises [OF raised(3)] show ?thesis
      by (auto simp: drive_raise)
  next
    case (stepped state' made k')
    from steps_decrease [OF stepped(1,3)] Suc.prems
    have "steps_bound (next_node n state') state' \<le> k"
      by simp
    from Suc.IH [OF this] show ?thesis
      by (simp add: drive_step [OF stepped(1,3)])
  qed
qed

lemma execute_sql_success:
  "error (execute_sql engine query) = None \<or> \<not> success (execute_sql engine query)"
  by (simp add: execute_sql_def failure_def split: pyval.splits engine_outcome.splits)

lemma error_of_result_same:
  "sql_results state' = sql_results state \<Longrightarrow> sql_error state' = sql_error state
   \<Longrightarrow> error_of_result state' = error_of_result state"
  by (simp add: error_of_result_def split: option.splits)

lemma run_node_keeps_result:
  assumes "n \<noteq> Executor" and "run_node c n state = (Inr state', made)"
  shows "sql_results state' = sql_results state \<and> sql_error state' = sql_error state"
  using assms
  by (cases n;
      auto simp: router_node_def retriever_node_def planner_node_def nl2sql_node_def
        repair_node_def synthesizer_node_def Let_def
        split: prod.splits sum.splits if_splits)+

lemma repair_invariant_step:
  assumes inv: "repair_invariant mr n state" and "n \<noteq> END"
    and r: "run_node c n state = (Inr state', made)"
  shows "repair_invariant mr (next_node n state') state'"
proof -
  have ctr: "repair_count state' = (if n = Repair then repair_count state + 1 else repair_count state)"
    and mx: "max_repairs state' = max_repairs state"
    using run_node_counter [OF r] by simp_all
  have res: "error_of_result state'"
  proof (cases "n = Executor")
    case True
    show ?thesis
    proof (cases "sql_query state = []")
      case empty: True
      with True r have "state' = state"
        by (simp add: executor_node_def)
      with inv show ?thesis by (simp add: repair_invariant_def)
    next
      case False
      let ?res = "execute_sql (sql_engine c (repair_count state)) (PyStr (sql_query state))"
      from False True r have "sql_results state' = Some ?res" and "sql_error state' = error ?res"
        by (auto simp: executor_node_def Let_def)
      with execute_sql_success [of "sql_engine c (repair_count state)" "PyStr (sql_query state)"]
      show ?thesis
        by (simp add: error_of_result_def)
    qed
  next
    case False
    from run_node_keeps_result [OF False r]
    have "error_of_result state' = error_of_result state"
      by (intro error_of_result_same) simp_all
    with inv show ?thesis by (simp add: repair_invariant_def)
  qed
  from inv have m: "max_repairs state = mr" and lo: "0 \<le> repair_count state"
    and hi: "repair_count state \<le> mr"
    and at: "n = Repair \<Longrightarrow> repair_count state < mr"
    by (simp_all add: repair_invariant_def)
  from ctr lo have lo': "0 \<le> repair_count state'"
    by (simp split: if_splits)
  from ctr hi at have hi': "repair_count state' \<le> mr"
    by (cases "n = Repair") simp_all
  have nxt: "if next_node n state' = Repair
             then truthy (sql_error state') \<and> repair_count state' < mr else True"
  proof (cases "next_node n state' = Repair")
    case True
    from next_node_Repair [OF True] mx m True show ?thesis by simp
  next
    case False
    then show ?thesis by simp
  qed
  from mx m lo' hi' res nxt show ?thesis
    unfolding repair_invariant_def by blast
qed

lemma repair_invariant_initial:
  "0 \<le> mr \<Longrightarrow> repair_invariant mr Router (initial_state q fmt mr)"
  by (simp add: repair_invariant_def initial_state_def error_of_result_def)

lemma repair_invariant_failed:
  assumes "repair_invariant mr Repair state"
  shows "failed_execution state \<and> repair_count state < mr"
proof -
  from assms have t: "truthy (sql_error state)" and e: "error_of_result state"
    and lt: "repair_count state < mr"
    by (simp_all add: repair_invariant_def)
  from t obtain msg where "sql_error state = Some msg"
    by (cases "sql_error state") (simp_all add: truthy_def)
  with e have "failed_execution state"
    by (cases "sql_results state")
       (auto simp: error_of_result_def failed_execution_def)
  with lt show ?thesis by simp
qed

lemma raise_in_path:
  assumes "outcome (drive c k n state) = Inl e" and "e \<noteq> GraphRecursionError"
  shows "\<exists>m s made. (m, s) \<in> set (path (drive c k n state)) \<and> run_node c m s = (Inl e, made)"
  using assms(1)
proof (induction k arbitrary: n state)
  case 0
  with assms(2) show ?case by (cases "n = END") simp_all
next
  case (Suc k)
  show ?case
  proof (cases rule: drive_cases [where n = n and k = "Suc k" and c = c and state = state])
    case finished
    with Suc.prems show ?thesis by (simp add: drive_END)
  next
    case exhausted
    then show ?thesis by simp
  next
    case (raised e' made k')
    with Suc.prems show ?thesis
      by (auto simp: drive_raise)
  next
    case (stepped state' made k')
    from Suc.prems have "outcome (drive c k (next_node n state') state') = Inl e"
      by (simp add: drive_step [OF stepped(1,3)])
    from Suc.IH [OF this] show ?thesis
      by (auto simp: drive_step [OF stepped(1,3)])
  qed
qed

text \<open>
  Every step moves one place on, so a run that ends with a final state has entered
  \<open>5 + 3 * r\<close> nodes, and one more on the routes \<open>rag\<close> and \<open>hybrid\<close>, where \<open>r\<close> is
  the repair count at the end. No run of this graph ends after exactly 25 nodes:
  whether the graph library looks at its limit before or after it sees that no node
  is left makes no difference here.
\<close>

lemma position_step:
  assumes "n \<noteq> END" and "run_node c n state = (Inr state', made)"
  shows "node_position (next_node n state') state' = node_position n state + 1"
proof (cases n)
  case Router
  with assms show ?thesis
    by (auto simp: router_node_def route_after_router_def detour_def split: prod.splits)
next
  case Retriever
  with assms show ?thesis
    by (auto simp: retriever_node_def detour_def split: if_splits sum.splits)
next
  case Planner
  with assms show ?thesis
    by (auto simp: planner_node_def detour_def split: if_splits)
next
  case NL2SQL
  with assms show ?thesis
    by (auto simp: nl2sql_node_def detour_def Let_def split: if_splits)
next
  case Executor
  with assms show ?thesis
    by (auto simp: executor_node_def detour_def should_repair_def Let_def split: if_splits)
next
  case Repair
  with assms show ?thesis
    by (auto simp: repair_node_def detour_def)
next
  case Synthesizer
  with assms show ?thesis
    by (auto simp: synthesizer_node_def detour_def Let_def split: if_splits sum.splits)
next
  case END
  with assms show ?thesis by simp
qed

lemma finished_run_position:
  assumes "outcome (drive c k n state) = Inr fin"
  shows "int (length (path (drive c k n state))) + node_position n state
         = node_position END fin"
  using assms
proof (induction k arbitrary: n state)
  case 0
  then show ?case by (cases "n = END") simp_all
next
  case (Suc k)
  show ?case
  proof (cases rule: drive_cases [where n = n and k = "Suc k" and c = c and state = state])
    case finished
    with Suc.prems show ?thesis by (simp add: drive_END)
  next
    case exhausted
    then show ?thesis by simp
  next
    case (raised e made k')
    with Suc.prems show ?thesis
      by (simp add: drive_raise)
  next
    case (stepped state' made k')
    from Suc.prems have fin: "outcome (drive c k (next_node n state') state') = Inr fin"
      by (simp add: drive_step [OF stepped(1,3)])
    from Suc.IH [OF fin] position_step [OF stepped(1,3)] stepped(1) show ?thesis
      by (simp add: drive_step [OF stepped(1,3)])
  qed
qed

lemma finished_run_length:
  assumes "outcome (run c q fmt mr) = Inr fin"
  shows "int (length (path (run c q fmt mr))) = 5 + detour fin + 3 * repair_count fin"
    and "length (path (run c q fmt mr)) \<noteq> 25"
proof -
  from finished_run_position [of c recursion_limit Router "initial_state q fmt mr" fin] assms
  show len: "int (length (path (run c q fmt mr))) = 5 + detour fin + 3 * repair_count fin"
    by (simp add: run_def initial_state_def)
  show "length (path (run c q fmt mr)) \<noteq> 25"
  proof
    assume "length (path (run c q fmt mr)) = 25"
    with len have "3 * repair_count fin = 20 - detour fin"
      by simp
    then have "3 * repair_count fin = 20 \<or> 3 * repair_count fin = 19"
      by (auto simp: detour_def split: if_splits)
    then show False
      by presburger
  qed
qed

lemma rag_invariant_step:
  assumes rag: "fst (forward (llm_classify c) q) = ''rag''"
    and inv: "rag_invariant q n state" and "n \<noteq> END"
    and r: "run_node c n state = (Inr state', made)"
  shows "rag_invariant q (next_node n state') state'"
proof (cases n)
  case Router
  with r inv rag show ?thesis
    by (auto simp: rag_invariant_def sql_untouched_def router_node_def route_after_router_def
        split: prod.splits)
next
  case Retriever
  with r inv show ?thesis
    by (auto simp: rag_invariant_def sql_untouched_def retriever_node_def
        split: if_splits sum.splits)
next
  case Planner
  with r inv show ?thesis
    by (auto simp: rag_invariant_def sql_untouched_def planner_node_def)
next
  case NL2SQL
  with r inv show ?thesis
    by (auto simp: rag_invariant_def sql_untouched_def nl2sql_node_def)
next
  case Executor
  with r inv show ?thesis
    by (auto simp: rag_invariant_def sql_untouched_def executor_node_def should_repair_def
        truthy_def)
next
  case Repair
  with inv show ?thesis
    by (simp add: rag_invariant_def sql_untouched_def)
next
  case Synthesizer
  with r inv show ?thesis
    by (auto simp: rag_invariant_def sql_untouched_def synthesizer_node_def
        collect_citations_def Let_def
        split: sum.splits if_splits)
next
  case END
  with assms show ?thesis by simp
qed

lemma rag_made:
  assumes inv: "rag_invariant q n state" and r: "run_node c n state = (res, made)"
  shows "list_all (\<lambda>x. \<not> is_execute x \<and> \<not> is_generate x) made"
proof (cases n)
  case Router
  with r show ?thesis
    by (auto simp: router_node_def is_execute_def is_generate_def list_all_iff
        split: prod.splits)
next
  case Retriever
  with r show ?thesis
    by (auto simp: retriever_node_def is_execute_def is_generate_def
        split: if_splits sum.splits)
next
  case NL2SQL
  with r inv show ?thesis
    by (auto simp: rag_invariant_def nl2sql_node_def)
next
  case Executor
  with r inv show ?thesis
    by (auto simp: rag_invariant_def sql_untouched_def executor_node_def)
next
  case Repair
  with inv show ?thesis
    by (simp add: rag_invariant_def sql_untouched_def)
next
  case Synthesizer
  with r show ?thesis
    by (auto simp: synthesizer_node_def is_execute_def is_generate_def Let_def
        split: sum.splits if_splits)
qed (use r in auto)

lemma rag_steps_decrease:
  assumes rag: "fst (forward (llm_classify c) q) = ''rag''"
    and inv: "rag_invariant q n state" and "n \<noteq> END"
    and r: "run_node c n state = (Inr state', made)"
  shows "rag_steps (next_node n state') < rag_steps n"
proof -
  from rag_invariant_step [OF assms] have nxt: "rag_invariant q (next_node n state') state'" .
  show ?thesis
  proof (cases n)
    case Router
    with nxt show ?thesis
      by (auto simp: rag_invariant_def route_after_router_def)
  next
    case Executor
    with nxt have "next_node n state' = Synthesizer"
      by (auto simp: rag_invariant_def sql_untouched_def should_repair_def truthy_def)
    with Executor show ?thesis by simp
  next
    case Repair
    with inv show ?thesis
      by (simp add: rag_invariant_def sql_untouched_def)
  qed (use assms in auto)
qed

lemma rag_enough_steps:
  assumes rag: "fst (forward (llm_classify c) q) = ''rag''"
    and "rag_invariant q n state" and "rag_steps n \<le> k"
  shows "outcome (drive c k n state) \<noteq> Inl GraphRecursionError"
  using assms(2,3)
proof (induction k arbitrary: n state)
  case 0
  then show ?case by (cases n) simp_all
next
  case (Suc k)
  show ?case
  proof (cases rule: drive_cases [where n = n and k = "Suc k" and c = c and state = state])
    case finished
    then show ?thesis by (simp add: drive_END)
  next
    case exhausted
    then show ?thesis by simp
  next
    case (raised e made k')
    with run_node_raises [OF raised(3)] show ?thesis
      by (auto simp: drive_raise)
  next
    case (stepped state' made k')
    from rag_steps_decrease [OF rag Suc.prems(1) stepped(1,3)] Suc.prems(2)
    have "rag_steps (next_node n state') \<le> k"
      by simp
    from Suc.IH [OF rag_invariant_step [OF rag Suc.prems(1) stepped(1,3)] this] show ?thesis
      by (simp add: drive_step [OF stepped(1,3)])
  qed
qed

text \<open>
  C10. In a run whose router assigns the route \<open>rag\<close>, every state has the empty
  query, no result, no error and the repair count 0, the repair node is not entered,
  and the collaborators are asked neither to generate nor to execute a query. The run
  ends with a final state, in which the citations are the ids of the retrieved
  chunks.
\<close>

theorem rag_route_leaves_sql_untouched:
  assumes "fst (forward (llm_classify c) q) = ''rag''"
  shows "list_all sql_untouched (path (run c q fmt mr))
     \<and> list_all (\<lambda>x. \<not> is_execute x \<and> \<not> is_generate x) (calls (run c q fmt mr))
     \<and> (case outcome (run c q fmt mr) of
          Inl e \<Rightarrow> False
        | Inr fin \<Rightarrow>
            route fin = ''rag'' \<and> sql_query fin = [] \<and> sql_results fin = None
            \<and> sql_error fin = None \<and> repair_count fin = 0
            \<and> citations fin = chunk_id ` set (retrieved_chunks fin))"
proof -
  let ?r = "drive c recursion_limit Router (initial_state q fmt mr)"
  have start: "rag_invariant q Router (initial_state q fmt mr)"
    by (simp add: rag_invariant_def sql_untouched_def initial_state_def)
  from drive_invariant [of "rag_invariant q" c "\<lambda>x. \<not> is_execute x \<and> \<not> is_generate x"
      Router "initial_state q fmt mr" recursion_limit,
      OF rag_invariant_step [OF assms] rag_made start]
  have p: "list_all (\<lambda>(m, s). rag_invariant q m s) (path ?r)"
    and k: "list_all (\<lambda>x. \<not> is_execute x \<and> \<not> is_generate x) (calls ?r)"
    and o: "case outcome ?r of Inl e \<Rightarrow> True | Inr fin \<Rightarrow> rag_invariant q END fin"
    by simp_all
  from p have p': "list_all sql_untouched (path ?r)"
    by (auto simp: list_all_iff rag_invariant_def)
  have o': "case outcome ?r of
          Inl e \<Rightarrow> False
        | Inr fin \<Rightarrow>
            route fin = ''rag'' \<and> sql_query fin = [] \<and> sql_results fin = None
            \<and> sql_error fin = None \<and> repair_count fin = 0
            \<and> citations fin = chunk_id ` set (retrieved_chunks fin)"
  proof (cases "outcome ?r")
    case (Inl e)
    have "rag_steps Router \<le> recursion_limit"
      by (simp add: recursion_limit_def)
    from rag_enough_steps [OF assms start this] Inl have "e \<noteq> GraphRecursionError"
      by auto
    from raise_in_path [OF Inl this] obtain m s made
      where in_path: "(m, s) \<in> set (path ?r)" and raised: "run_node c m s = (Inl e, made)"
      by blast
    from in_path p have "sql_query s = []" and "sql_results s = None"
      by (auto simp: list_all_iff rag_invariant_def sql_untouched_def)
    then have "\<forall>e. collect_citations s \<noteq> Inl e" and "\<not> unserializable (sql_results s)"
      by (simp_all add: collect_citations_def unserializable_def)
    then have "\<forall>e made. run_node c Synthesizer s \<noteq> (Inl e, made)"
      by (auto simp: synthesizer_node_def Let_def split: sum.splits)
    with run_node_raises [OF raised] raised have False
      by auto
    then show ?thesis ..
  next
    case (Inr fin)
    with o show ?thesis
      by (simp add: rag_invariant_def sql_untouched_def)
  qed
  from p' k o' show ?thesis
    by (simp add: run_def)
qed

theorem rag_route_leaves_sql_untouched_witness:
  "fst (forward (llm_classify failing_collaborators) ''What is the return policy?'') = ''rag''
   \<and> list_all sql_untouched (path (run failing_collaborators ''What is the return policy?'' ''int'' 2))
   \<and> list_all (\<lambda>x. \<not> is_execute x \<and> \<not> is_generate x)
        (calls (run failing_collaborators ''What is the return policy?'' ''int'' 2))
   \<and> map fst (path (run failing_collaborators ''What is the return policy?'' ''int'' 2))
       = [Router, Retriever, Planner, NL2SQL, Executor, Synthesizer]
   \<and> map_sum id citations (outcome (run failing_collaborators ''What is the return policy?'' ''int'' 2))
       = Inr {''marketing_calendar.md::chunk0'', ''marketing_calendar.md::chunk1''}"
proof -
  have h: "fst (forward (llm_classify failing_collaborators) ''What is the return policy?'') = ''rag''"
    by code_simp
  have n: "map fst (path (run failing_collaborators ''What is the return policy?'' ''int'' 2))
       = [Router, Retriever, Planner, NL2SQL, Executor, Synthesizer]"
    by code_simp
  have o: "map_sum id citations (outcome (run failing_collaborators ''What is the return policy?'' ''int'' 2))
       = Inr {''marketing_calendar.md::chunk0'', ''marketing_calendar.md::chunk1''}"
    by code_simp
  from h n o rag_route_leaves_sql_untouched [OF h, of "''int''" 2] show ?thesis
    by simp
qed

text \<open>
  C1, as the code has it. For a bound that is not negative: the run starts at the
  router with the repair count 0; from one node to the next the count grows by one
  after the repair node and not otherwise, and the repair node follows the executor
  only; the repair node is entered only after a failed execution and with a count
  below the bound; the count never exceeds the bound; and the query generator is
  called at most \<open>mr + 1\<close> times. The run enters at most \<open>3 * mr + 6\<close> nodes and at
  most 25, the limit of the graph library: it enters the synthesizer or it is stopped
  by the limit after 25 nodes, never both, and it is not stopped when the bound is at
  most 6.
\<close>

theorem repair_loop_bounded:
  assumes "0 \<le> mr"
  shows "(\<exists>p. path (run c q fmt mr) = (Router, initial_state q fmt mr) # p)
     \<and> repair_count (initial_state q fmt mr) = 0
     \<and> counter_steps (path (run c q fmt mr))
     \<and> list_all (repair_justified mr) (path (run c q fmt mr))
     \<and> list_all (within_bound mr) (path (run c q fmt mr))
     \<and> (case outcome (run c q fmt mr) of Inl e \<Rightarrow> True | Inr fin \<Rightarrow> repair_count fin \<le> mr)
     \<and> (Synthesizer \<in> fst ` set (path (run c q fmt mr))
        \<or> outcome (run c q fmt mr) = Inl GraphRecursionError)
     \<and> (outcome (run c q fmt mr) = Inl GraphRecursionError
        \<longrightarrow> Synthesizer \<notin> fst ` set (path (run c q fmt mr))
            \<and> length (path (run c q fmt mr)) = recursion_limit)
     \<and> (mr \<le> 6 \<longrightarrow> Synthesizer \<in> fst ` set (path (run c q fmt mr))
                    \<and> outcome (run c q fmt mr) \<noteq> Inl GraphRecursionError)
     \<and> length (filter is_generate (calls (run c q fmt mr))) \<le> nat mr + 1
     \<and> length (path (run c q fmt mr)) \<le> min recursion_limit (3 * nat mr + 6)"
proof -
  let ?s = "initial_state q fmt mr"
  let ?r = "drive c recursion_limit Router ?s"
  have left: "repairs_left ?s = nat mr"
    by (simp add: repairs_left_def initial_state_def)
  have lim: "recursion_limit = Suc 24"
    by (simp add: recursion_limit_def)
  have a: "\<exists>p. path ?r = (Router, ?s) # p"
    unfolding lim by (rule path_head) simp
  have b: "repair_count ?s = 0"
    by (simp add: initial_state_def)
  have c: "counter_steps (path ?r)"
    by (rule counter_steps_drive)
  have trivial: "\<And>n state r made. repair_invariant mr n state \<Longrightarrow> n \<noteq> END
      \<Longrightarrow> run_node c n state = (r, made) \<Longrightarrow> list_all (\<lambda>x. True) made"
    by (simp add: list_all_iff)
  from drive_invariant [of "repair_invariant mr" c "\<lambda>x. True" Router ?s recursion_limit,
      OF repair_invariant_step trivial repair_invariant_initial [OF assms]]
  have inv: "list_all (\<lambda>(m, s). repair_invariant mr m s) (path ?r)"
    and fin: "case outcome ?r of Inl e \<Rightarrow> True | Inr fin \<Rightarrow> repair_invariant mr END fin"
    by simp_all
  have d: "list_all (repair_justified mr) (path ?r)"
    unfolding list_all_iff
  proof
    fix x assume x: "x \<in> set (path ?r)"
    obtain m s where ms: "x = (m, s)"
      by (cases x)
    with x inv have i: "repair_invariant mr m s"
      by (auto simp: list_all_iff)
    show "repair_justified mr x"
    proof (cases "m = Repair")
      case True
      with i repair_invariant_failed [of mr s] ms show ?thesis
        by (simp add: repair_justified_def)
    next
      case False
      with ms show ?thesis by (simp add: repair_justified_def)
    qed
  qed
  from inv have e: "list_all (within_bound mr) (path ?r)"
    by (auto simp: list_all_iff within_bound_def repair_invariant_def)
  from fin have f: "case outcome ?r of Inl e \<Rightarrow> True | Inr fin \<Rightarrow> repair_count fin \<le> mr"
    by (cases "outcome ?r") (simp_all add: repair_invariant_def)
  have g: "Synthesizer \<in> fst ` set (path ?r) \<or> outcome ?r = Inl GraphRecursionError"
    by (rule reaches_synthesizer) simp
  have g': "outcome ?r = Inl GraphRecursionError
        \<longrightarrow> Synthesizer \<notin> fst ` set (path ?r) \<and> length (path ?r) = recursion_limit"
    using stopped_before_synthesizer [of c recursion_limit Router ?s] by blast
  have g'': "mr \<le> 6 \<longrightarrow> Synthesizer \<in> fst ` set (path ?r)
                    \<and> outcome ?r \<noteq> Inl GraphRecursionError"
  proof
    assume "mr \<le> 6"
    with left have "steps_bound Router ?s \<le> recursion_limit"
      by (simp add: recursion_limit_def)
    then have "outcome ?r \<noteq> Inl GraphRecursionError"
      by (rule enough_steps)
    with g show "Synthesizer \<in> fst ` set (path ?r) \<and> outcome ?r \<noteq> Inl GraphRecursionError"
      by simp
  qed
  from generations_bounded [of c recursion_limit Router ?s] left
  have h: "length (filter is_generate (calls ?r)) \<le> nat mr + 1"
    by simp
  from path_length [of c recursion_limit Router ?s] path_length_fuel [of c recursion_limit Router ?s]
    left
  have i: "length (path ?r) \<le> min recursion_limit (3 * nat mr + 6)"
    by simp
  from a b c d e f g g' g'' h i show ?thesis
    unfolding run_def by blast
qed

theorem repair_loop_bounded_witness:
  "(0::int) \<le> 2 \<and> (2::int) \<le> 6
   \<and> map fst (path (run failing_collaborators ''How many orders?'' ''int'' 2))
       = [Router, Planner, NL2SQL, Executor, Repair, NL2SQL, Executor, Repair,
          NL2SQL, Executor, Synthesizer]
   \<and> list_all (within_bound 2) (path (run failing_collaborators ''How many orders?'' ''int'' 2))
   \<and> list_all (repair_justified 2) (path (run failing_collaborators ''How many orders?'' ''int'' 2))
   \<and> counter_steps (path (run failing_collaborators ''How many orders?'' ''int'' 2))
   \<and> Synthesizer \<in> fst ` set (path (run failing_collaborators ''How many orders?'' ''int'' 2))
   \<and> outcome (run failing_collaborators ''How many orders?'' ''int'' 2) \<noteq> Inl GraphRecursionError
   \<and> length (filter is_generate (calls (run failing_collaborators ''How many orders?'' ''int'' 2))) = 3
   \<and> length (filter is_generate (calls (run failing_collaborators ''How many orders?'' ''int'' 2)))
       \<le> nat 2 + 1
   \<and> (0::int) \<le> 7
   \<and> outcome (run failing_collaborators ''How many orders?'' ''int'' 7)
       = Inl GraphRecursionError
   \<and> Synthesizer \<notin> fst ` set (path (run failing_collaborators ''How many orders?'' ''int'' 7))
   \<and> length (path (run failing_collaborators ''How many orders?'' ''int'' 7)) = recursion_limit"
proof -
  have z: "(0::int) \<le> 2" and z': "(2::int) \<le> 6" and z'': "(0::int) \<le> 7"
    by simp_all
  have s: "outcome (run failing_collaborators ''How many orders?'' ''int'' 7)
       = Inl GraphRecursionError"
    by code_simp
  have n: "map fst (path (run failing_collaborators ''How many orders?'' ''int'' 2))
       = [Router, Planner, NL2SQL, Executor, Repair, NL2SQL, Executor, Repair,
          NL2SQL, Executor, Synthesizer]"
    by code_simp
  have g: "length (filter is_generate (calls (run failing_collaborators ''How many orders?'' ''int'' 2))) = 3"
    by code_simp
  from z z' z'' s n g
    repair_loop_bounded [OF z, of failing_collaborators "''How many orders?''" "''int''"]
    repair_loop_bounded [OF z'', of failing_collaborators "''How many orders?''" "''int''"]
  show ?thesis by simp
qed

text \<open>
  The claim as the specification words it fails in two ways. With the bound -1 the
  run starts with the count 0, which exceeds the bound, and the query generator is
  called once, which is more than the bound plus one. With the bound 7 and a query
  that fails at every attempt, the run is stopped by the limit of the graph library
  after 25 nodes, in the executor after the seventh repair, and never enters the
  synthesizer.
\<close>

theorem repair_loop_counterexample:
  "list_all (\<lambda>(n, s). repair_count s \<le> max_repairs s)
     (path (run failing_collaborators ''How many orders?'' ''int'' (- 1))) = False
   \<and> length (filter is_generate (calls (run failing_collaborators ''How many orders?'' ''int'' (- 1)))) = 1
   \<and> map fst (path (run failing_collaborators ''How many orders?'' ''int'' 7))
       = [Router, Planner, NL2SQL, Executor, Repair, NL2SQL, Executor, Repair,
          NL2SQL, Executor, Repair, NL2SQL, Executor, Repair, NL2SQL, Executor, Repair,
          NL2SQL, Executor, Repair, NL2SQL, Executor, Repair, NL2SQL, Executor]
   \<and> list_all (\<lambda>(n, s). n \<noteq> Synthesizer)
        (path (run failing_collaborators ''How many orders?'' ''int'' 7))
   \<and> outcome (run failing_collaborators ''How many orders?'' ''int'' 7)
       = Inl GraphRecursionError"
  by code_simp


end
